theory Spec2Isabelle
  imports Main
begin

section \<open>Notes API: the key-value-store layer (cache, rate limiter, recent list)\<close>

text \<open>
  The service keeps notes in a relational store and uses a Redis server for three
  things: a cache of single notes (\<^verbatim>\<open>app/cache.py\<close>), a fixed-window request counter per
  client address (\<^verbatim>\<open>app/rate_limit.py\<close>) and a bounded list of recently read notes per
  client address (\<^verbatim>\<open>app/recent.py\<close>). The handlers of \<^verbatim>\<open>app/main.py\<close> call them through
  wrappers that swallow store errors.

  The Python code is embedded as pure functions: the Redis server is an explicit state
  (its keys, its clock, and whether it answers), the notes table is a map, and every
  exception the code can raise is a value of the type \<open>error\<close>.
\<close>

subsection \<open>Errors\<close>

text \<open>
  \<^verbatim>\<open>redis.RedisError\<close> is the base class of the errors of the Redis client: a refused
  or lost connection, a timeout, and an error reply of the server (wrong type of key, a
  value that is not an integer, an invalid expire time). \<^verbatim>\<open>except redis.RedisError\<close>
  catches exactly the values \<open>RedisError e\<close>.
\<close>

datatype redis_error = ConnectionError | TimeoutError | ResponseError

datatype error =
    RedisError redis_error
  | JSONDecodeError
  | ValidationError
  | ValueError
  | AttributeError
  | HTTPException nat string

definition HTTP_404_NOT_FOUND :: nat where
  "HTTP_404_NOT_FOUND = 404"

definition HTTP_429_TOO_MANY_REQUESTS :: nat where
  "HTTP_429_TOO_MANY_REQUESTS = 429"

subsection \<open>Decimal text of integers\<close>

text \<open>
  Keys are built with f-strings (\<^verbatim>\<open>f"note:{note_id}"\<close>), the Redis client sends an
  integer argument as its decimal text, and Redis keeps counters and list elements as
  byte strings. \<open>py_str\<close> is Python's \<^verbatim>\<open>str\<close> on an \<^verbatim>\<open>int\<close>.
\<close>

definition digit_char :: "nat \<Rightarrow> char" where
  "digit_char d = ''0123456789'' ! d"

definition digit_val :: "char \<Rightarrow> nat option" where
  "digit_val c = map_of (zip ''0123456789'' [0, 1, 2, 3, 4, 5, 6, 7, 8, 9]) c"

function str_nat :: "nat \<Rightarrow> string" where
  "str_nat n = (if n < 10 then [digit_char n] else str_nat (n div 10) @ [digit_char (n mod 10)])"
  by pat_completeness auto
termination
  by (relation "measure (\<lambda>n. n)") auto

declare str_nat.simps [simp del]

definition py_str :: "int \<Rightarrow> string" where
  "py_str i = (if i < 0 then CHR ''-'' # str_nat (nat (- i)) else str_nat (nat i))"

fun digits_val :: "nat \<Rightarrow> string \<Rightarrow> nat option" where
  "digits_val acc [] = Some acc"
| "digits_val acc (c # cs) =
     (case digit_val c of None \<Rightarrow> None | Some d \<Rightarrow> digits_val (10 * acc + d) cs)"

definition nat_of_digits :: "string \<Rightarrow> nat option" where
  "nat_of_digits cs = (if cs = [] then None else digits_val 0 cs)"

text \<open>An optional sign followed by one or more decimal digits.\<close>

definition int_of_string :: "string \<Rightarrow> int option" where
  "int_of_string cs =
     (case cs of
        [] \<Rightarrow> None
      | c # ds \<Rightarrow>
          if c = CHR ''-'' then map_option (\<lambda>n. - int n) (nat_of_digits ds)
          else if c = CHR ''+'' then map_option int (nat_of_digits ds)
          else map_option int (nat_of_digits cs))"

text \<open>
  Python's \<^verbatim>\<open>int(v)\<close> on the bytes of a list element; \<^verbatim>\<open>ValueError\<close> when they are
  not the text of an integer. (The surrounding white space and the underscores between
  digits that \<^verbatim>\<open>int\<close> also accepts are never written by this program and are not
  modelled.)
\<close>

definition py_int :: "string \<Rightarrow> error + int" where
  "py_int v = (case int_of_string v of None \<Rightarrow> Inl ValueError | Some i \<Rightarrow> Inr i)"

text \<open>
  Redis reads a stored string as an integer only when it is the canonical decimal text
  (no plus sign, no leading zero). Redis counters are signed 64-bit integers; the model
  counts with unbounded integers.
\<close>

definition string2ll :: "string \<Rightarrow> int option" where
  "string2ll v =
     (case int_of_string v of
        None \<Rightarrow> None
      | Some i \<Rightarrow> if py_str i = v then Some i else None)"

subsection \<open>The Redis server\<close>

text \<open>
  A key holds a byte string or a list of byte strings, and possibly a time at which it
  expires. The clock counts milliseconds. A key is absent for every command once the
  clock is past its expire time (\<open>lookupKey\<close>); at the expire time itself it is still
  there. \<open>fault\<close> is the error with which the server currently fails every command
  (\<open>None\<close>: it answers).
\<close>

datatype rvalue = RString string | RList "string list"

record entry =
  stored :: rvalue
  expire_at :: "int option"

record redis =
  fault :: "redis_error option"
  clock :: int
  store :: "string \<Rightarrow> entry option"

definition expired :: "redis \<Rightarrow> entry \<Rightarrow> bool" where
  "expired s e = (case expire_at e of None \<Rightarrow> False | Some w \<Rightarrow> clock s > w)"

definition lookupKey :: "redis \<Rightarrow> string \<Rightarrow> entry option" where
  "lookupKey s k =
     (case store s k of
        None \<Rightarrow> None
      | Some e \<Rightarrow> if expired s e then None else Some e)"

definition setKey :: "string \<Rightarrow> entry \<Rightarrow> redis \<Rightarrow> redis" where
  "setKey k e s = s\<lparr>store := (store s)(k := Some e)\<rparr>"

definition delKey :: "string \<Rightarrow> redis \<Rightarrow> redis" where
  "delKey k s = s\<lparr>store := (store s)(k := None)\<rparr>"

text \<open>Time passing on the server: \<open>d\<close> milliseconds.\<close>

definition elapse :: "nat \<Rightarrow> redis \<Rightarrow> redis" where
  "elapse d s = s\<lparr>clock := clock s + int d\<rparr>"

text \<open>
  The index arithmetic that \<^verbatim>\<open>LRANGE\<close> and \<^verbatim>\<open>LTRIM\<close> share: a negative index counts
  from the end of the list, an index past the end is clamped, and an empty range
  selects nothing.
\<close>

definition list_range :: "'a list \<Rightarrow> int \<Rightarrow> int \<Rightarrow> 'a list" where
  "list_range xs start stop =
     (let llen = int (length xs);
          start1 = (if start < 0 then llen + start else start);
          stop1 = (if stop < 0 then llen + stop else stop);
          start2 = (if start1 < 0 then 0 else start1)
      in if start2 \<ge> llen \<or> start2 > stop1 then []
         else let stop2 = (if stop1 \<ge> llen then llen - 1 else stop1)
              in take (nat (stop2 - start2 + 1)) (drop (nat start2) xs))"

text \<open>\<^verbatim>\<open>LREM key count value\<close>: the first \<open>n\<close> occurrences, from either end, or all.\<close>

fun remove_n :: "nat \<Rightarrow> 'a \<Rightarrow> 'a list \<Rightarrow> 'a list" where
  "remove_n 0 v xs = xs"
| "remove_n (Suc n) v [] = []"
| "remove_n (Suc n) v (x # xs) = (if x = v then remove_n n v xs else x # remove_n (Suc n) v xs)"

definition list_rem :: "int \<Rightarrow> 'a \<Rightarrow> 'a list \<Rightarrow> 'a list" where
  "list_rem count v xs =
     (if count = 0 then removeAll v xs
      else if count > 0 then remove_n (nat count) v xs
      else rev (remove_n (nat (- count)) v (rev xs)))"

text \<open>The commands the program queues in a pipeline, and their replies.\<close>

datatype command =
    INCRBY string int
  | EXPIRE string int bool
  | LREM string int string
  | LPUSH string string
  | LTRIM string int int

datatype reply = Integer int | Ok

text \<open>A list that becomes empty is removed with its key.\<close>

definition putList :: "string \<Rightarrow> entry \<Rightarrow> string list \<Rightarrow> redis \<Rightarrow> redis" where
  "putList k e xs s = (if xs = [] then delKey k s else setKey k (e\<lparr>stored := RList xs\<rparr>) s)"

fun run_command :: "command \<Rightarrow> redis \<Rightarrow> (redis_error + reply) \<times> redis" where
  "run_command (INCRBY k amount) s =
     (case lookupKey s k of
        None \<Rightarrow>
          (Inr (Integer amount), setKey k \<lparr>stored = RString (py_str amount), expire_at = None\<rparr> s)
      | Some e \<Rightarrow>
          (case stored e of
             RList xs \<Rightarrow> (Inl ResponseError, s)
           | RString v \<Rightarrow>
               (case string2ll v of
                  None \<Rightarrow> (Inl ResponseError, s)
                | Some n \<Rightarrow>
                    (Inr (Integer (n + amount)),
                     setKey k (e\<lparr>stored := RString (py_str (n + amount))\<rparr>) s))))"
| "run_command (EXPIRE k seconds nx) s =
     (case lookupKey s k of
        None \<Rightarrow> (Inr (Integer 0), s)
      | Some e \<Rightarrow>
          if nx \<and> expire_at e \<noteq> None then (Inr (Integer 0), s)
          else if seconds \<le> 0 then (Inr (Integer 1), delKey k s)
          else (Inr (Integer 1), setKey k (e\<lparr>expire_at := Some (clock s + 1000 * seconds)\<rparr>) s))"
| "run_command (LREM k count v) s =
     (case lookupKey s k of
        None \<Rightarrow> (Inr (Integer 0), s)
      | Some e \<Rightarrow>
          (case stored e of
             RString w \<Rightarrow> (Inl ResponseError, s)
           | RList xs \<Rightarrow>
               (Inr (Integer (int (length xs) - int (length (list_rem count v xs)))),
                putList k e (list_rem count v xs) s)))"
| "run_command (LPUSH k v) s =
     (case lookupKey s k of
        None \<Rightarrow> (Inr (Integer 1), setKey k \<lparr>stored = RList [v], expire_at = None\<rparr> s)
      | Some e \<Rightarrow>
          (case stored e of
             RString w \<Rightarrow> (Inl ResponseError, s)
           | RList xs \<Rightarrow>
               (Inr (Integer (int (length xs) + 1)), setKey k (e\<lparr>stored := RList (v # xs)\<rparr>) s)))"
| "run_command (LTRIM k start stop) s =
     (case lookupKey s k of
        None \<Rightarrow> (Inr Ok, s)
      | Some e \<Rightarrow>
          (case stored e of
             RString w \<Rightarrow> (Inl ResponseError, s)
           | RList xs \<Rightarrow> (Inr Ok, putList k e (list_range xs start stop) s)))"

text \<open>
  \<^verbatim>\<open>pipe.execute()\<close>. The pipeline is a transaction: when the server does not answer
  nothing is run; otherwise the queued commands run in order with nothing in between, a
  command that fails does not stop the ones after it, and the first error reply is raised
  after all have run.
\<close>

fun run_queue :: "command list \<Rightarrow> redis \<Rightarrow> (redis_error + reply) list \<times> redis" where
  "run_queue [] s = ([], s)"
| "run_queue (c # cs) s =
     (case run_command c s of
        (r, s1) \<Rightarrow> (case run_queue cs s1 of (rs, s2) \<Rightarrow> (r # rs, s2)))"

fun collect :: "(redis_error + reply) list \<Rightarrow> redis_error + reply list" where
  "collect [] = Inr []"
| "collect (Inl e # rs) = Inl e"
| "collect (Inr r # rs) = (case collect rs of Inl e \<Rightarrow> Inl e | Inr xs \<Rightarrow> Inr (r # xs))"

definition execute :: "command list \<Rightarrow> redis \<Rightarrow> (error + reply list) \<times> redis" where
  "execute cmds s =
     (case fault s of
        Some e \<Rightarrow> (Inl (RedisError e), s)
      | None \<Rightarrow>
          (case run_queue cmds s of
             (rs, s1) \<Rightarrow>
               (case collect rs of
                  Inl e \<Rightarrow> (Inl (RedisError e), s1)
                | Inr xs \<Rightarrow> (Inr xs, s1))))"

text \<open>The commands the program sends on their own.\<close>

definition redis_get :: "string \<Rightarrow> redis \<Rightarrow> error + string option" where
  "redis_get k s =
     (case fault s of
        Some e \<Rightarrow> Inl (RedisError e)
      | None \<Rightarrow>
          (case lookupKey s k of
             None \<Rightarrow> Inr None
           | Some e \<Rightarrow>
               (case stored e of
                  RString v \<Rightarrow> Inr (Some v)
                | RList xs \<Rightarrow> Inl (RedisError ResponseError))))"

definition redis_set :: "string \<Rightarrow> string \<Rightarrow> int \<Rightarrow> redis \<Rightarrow> (error + unit) \<times> redis" where
  "redis_set k v ex s =
     (case fault s of
        Some e \<Rightarrow> (Inl (RedisError e), s)
      | None \<Rightarrow>
          if ex \<le> 0 then (Inl (RedisError ResponseError), s)
          else (Inr (), setKey k \<lparr>stored = RString v, expire_at = Some (clock s + 1000 * ex)\<rparr> s))"

definition redis_delete :: "string \<Rightarrow> redis \<Rightarrow> (error + int) \<times> redis" where
  "redis_delete k s =
     (case fault s of
        Some e \<Rightarrow> (Inl (RedisError e), s)
      | None \<Rightarrow>
          (case lookupKey s k of
             None \<Rightarrow> (Inr 0, delKey k s)
           | Some e \<Rightarrow> (Inr 1, delKey k s)))"

definition redis_lrange :: "string \<Rightarrow> int \<Rightarrow> int \<Rightarrow> redis \<Rightarrow> error + string list" where
  "redis_lrange k start stop s =
     (case fault s of
        Some e \<Rightarrow> Inl (RedisError e)
      | None \<Rightarrow>
          (case lookupKey s k of
             None \<Rightarrow> Inr []
           | Some e \<Rightarrow>
               (case stored e of
                  RString v \<Rightarrow> Inl (RedisError ResponseError)
                | RList xs \<Rightarrow> Inr (list_range xs start stop))))"

subsection \<open>Configuration and requests\<close>

text \<open>\<^verbatim>\<open>app/config.py\<close>: every setting can be overridden from the environment.\<close>

record settings =
  database_url :: string
  redis_url :: string
  rate_limit :: int
  rate_limit_window_seconds :: int
  note_cache_ttl_seconds :: int
  recent_notes_limit :: int

definition get_settings :: settings where
  "get_settings =
     \<lparr>database_url = ''sqlite:///./notes.db'',
      redis_url = ''redis://localhost:6379/0'',
      rate_limit = 100,
      rate_limit_window_seconds = 600,
      note_cache_ttl_seconds = 300,
      recent_notes_limit = 5\<rparr>"

text \<open>
  Of a request the code reads \<^verbatim>\<open>request.client\<close>, which may be \<^verbatim>\<open>None\<close>, and its
  \<^verbatim>\<open>host\<close>. The handle to the Redis server is an object of the process; a handler
  receives it or \<^verbatim>\<open>None\<close>.
\<close>

record address =
  host :: string
  port :: int

record request =
  client :: "address option"

record redis_client =
  url :: string
  serial :: nat

subsection \<open>\<^verbatim>\<open>app/rate_limit.py\<close>\<close>

definition rate_limit_key :: "string \<Rightarrow> string" where
  "rate_limit_key ip = ''rate:ip:'' @ ip"

text \<open>
  \<open>Inr ()\<close> lets the request through. Entering \<^verbatim>\<open>client.pipeline()\<close> is outside the
  \<^verbatim>\<open>try\<close>, so with no client object the attribute access fails.
\<close>

definition rate_limiter ::
  "settings \<Rightarrow> request \<Rightarrow> redis_client option \<Rightarrow> redis \<Rightarrow> (error + unit) \<times> redis" where
  "rate_limiter cfg req cl s =
     (let client_ip = (case client req of Some a \<Rightarrow> host a | None \<Rightarrow> ''unknown'');
          key = rate_limit_key client_ip
      in case cl of
           None \<Rightarrow> (Inl AttributeError, s)
         | Some c \<Rightarrow>
             (case execute [INCRBY key 1, EXPIRE key (rate_limit_window_seconds cfg) True] s of
                (Inl (RedisError e), s1) \<Rightarrow> (Inr (), s1)
              | (Inl e, s1) \<Rightarrow> (Inl e, s1)
              | (Inr [Integer current_count, r], s1) \<Rightarrow>
                  if current_count \<noteq> 0 \<and> current_count > rate_limit cfg
                  then (Inl (HTTPException HTTP_429_TOO_MANY_REQUESTS
                               ''Rate limit exceeded. Try again later.''), s1)
                  else (Inr (), s1)
              | (Inr rs, s1) \<Rightarrow> (Inl ValueError, s1)))"

text \<open>
  The key of a request, the value of a counter and the expire time of a key, as the
  server would report them, and a client that sends one request after another: before
  each request the given number of milliseconds passes.
\<close>

definition client_ip :: "request \<Rightarrow> string" where
  "client_ip req = (case client req of Some a \<Rightarrow> host a | None \<Rightarrow> ''unknown'')"

definition counter :: "redis \<Rightarrow> string \<Rightarrow> int option" where
  "counter s k =
     (case lookupKey s k of
        None \<Rightarrow> None
      | Some e \<Rightarrow> (case stored e of RString v \<Rightarrow> string2ll v | RList xs \<Rightarrow> None))"

definition expiry :: "redis \<Rightarrow> string \<Rightarrow> int option" where
  "expiry s k = (case lookupKey s k of None \<Rightarrow> None | Some e \<Rightarrow> expire_at e)"

definition rate_limited :: "error + unit" where
  "rate_limited =
     Inl (HTTPException HTTP_429_TOO_MANY_REQUESTS ''Rate limit exceeded. Try again later.'')"

fun requests ::
  "settings \<Rightarrow> request \<Rightarrow> redis_client option \<Rightarrow> nat list \<Rightarrow> redis \<Rightarrow>
     (error + unit) list \<times> redis" where
  "requests cfg req cl [] s = ([], s)"
| "requests cfg req cl (d # ds) s =
     (case rate_limiter cfg req cl (elapse d s) of
        (r, s1) \<Rightarrow> (case requests cfg req cl ds s1 of (rs, s2) \<Rightarrow> (r # rs, s2)))"

text \<open>
  A counter that was opened with value \<open>n\<close> and expire time \<open>w\<close>, on a server that
  answers, before \<open>w\<close> has passed.
\<close>

definition window :: "string \<Rightarrow> int \<Rightarrow> int \<Rightarrow> redis \<Rightarrow> bool" where
  "window k n w s \<longleftrightarrow>
     fault s = None \<and>
     store s k = Some \<lparr>stored = RString (py_str n), expire_at = Some w\<rparr> \<and>
     clock s \<le> w"

subsection \<open>Notes: \<^verbatim>\<open>app/models.py\<close>, \<^verbatim>\<open>app/schemas.py\<close>, \<^verbatim>\<open>app/crud.py\<close>\<close>

text \<open>
  A row of the table \<^verbatim>\<open>notes\<close> and the response model \<^verbatim>\<open>schemas.Note\<close> have the same
  fields, so one record stands for both. A time stamp is a number (microseconds, UTC).
  The field \<^verbatim>\<open>id\<close> is written \<open>id'\<close>.
\<close>

type_synonym datetime = int

record Note =
  title :: string
  content :: string
  tags :: "string list option"
  id' :: int
  created_at :: datetime
  updated_at :: datetime
  is_deleted :: bool
  deleted_at :: "datetime option"

text \<open>The validator of \<^verbatim>\<open>tags\<close> and the length bounds of the fields of \<^verbatim>\<open>NoteBase\<close>.\<close>

definition validate_tags :: "string list option \<Rightarrow> error + string list option" where
  "validate_tags ts =
     (case ts of
        None \<Rightarrow> Inr None
      | Some xs \<Rightarrow>
          if list_all (\<lambda>tag. 0 < length tag \<and> length tag \<le> 30) xs then Inr (Some xs)
          else Inl ValidationError)"

text \<open>
  \<^verbatim>\<open>schemas.Note.model_validate(note)\<close>: the response model built from a row, which fails
  when a field breaks a bound.
\<close>

definition model_validate :: "Note \<Rightarrow> error + Note" where
  "model_validate n =
     (if 1 \<le> length (title n) \<and> length (title n) \<le> 100 \<and>
         1 \<le> length (content n) \<and> length (content n) \<le> 5000
      then (case validate_tags (tags n) of Inl e \<Rightarrow> Inl e | Inr ts \<Rightarrow> Inr (n\<lparr>tags := ts\<rparr>))
      else Inl ValidationError)"

text \<open>The table, by primary key.\<close>

type_synonym db = "int \<Rightarrow> Note option"

definition get_note :: "db \<Rightarrow> int \<Rightarrow> bool \<Rightarrow> Note option" where
  "get_note db note_id include_deleted =
     (case db note_id of
        None \<Rightarrow> None
      | Some n \<Rightarrow> if \<not> include_deleted \<and> is_deleted n then None else Some n)"

text \<open>
  \<open>now\<close> is what \<^verbatim>\<open>utcnow()\<close> returns; the column \<^verbatim>\<open>updated_at\<close> takes it too
  (\<^verbatim>\<open>onupdate\<close>).
\<close>

definition soft_delete_note :: "db \<Rightarrow> Note \<Rightarrow> datetime \<Rightarrow> Note \<times> db" where
  "soft_delete_note db n now =
     (let n1 = n\<lparr>is_deleted := True, deleted_at := Some now, updated_at := now\<rparr>
      in (n1, db(id' n := Some n1)))"

subsection \<open>\<^verbatim>\<open>app/cache.py\<close>\<close>

text \<open>
  The cache keeps the JSON text of a note. The three library calls that turn a note into
  bytes and back are parameters of the model: \<^verbatim>\<open>note.model_dump_json()\<close>,
  \<^verbatim>\<open>json.loads(data)\<close>, which fails with \<^verbatim>\<open>JSONDecodeError\<close>, and \<^verbatim>\<open>Note(**payload)\<close>,
  which fails with \<^verbatim>\<open>ValidationError\<close>. \<open>'p\<close> is the type of the decoded payload.
\<close>

record 'p codec =
  model_dump_json :: "Note \<Rightarrow> string"
  json_loads :: "string \<Rightarrow> error + 'p"
  Note_init :: "'p \<Rightarrow> error + Note"

definition note_cache_key :: "int \<Rightarrow> string" where
  "note_cache_key note_id = ''note:'' @ py_str note_id"

definition get_cached_note ::
  "'p codec \<Rightarrow> redis_client \<Rightarrow> int \<Rightarrow> redis \<Rightarrow> error + Note option" where
  "get_cached_note cdc c note_id s =
     (case redis_get (note_cache_key note_id) s of
        Inl e \<Rightarrow> Inl e
      | Inr None \<Rightarrow> Inr None
      | Inr (Some data) \<Rightarrow>
          if data = [] then Inr None
          else (case json_loads cdc data of
                  Inl e \<Rightarrow> Inl e
                | Inr payload \<Rightarrow>
                    (case Note_init cdc payload of Inl e \<Rightarrow> Inl e | Inr n \<Rightarrow> Inr (Some n))))"

definition cache_note ::
  "'p codec \<Rightarrow> settings \<Rightarrow> redis_client \<Rightarrow> Note \<Rightarrow> redis \<Rightarrow> (error + unit) \<times> redis" where
  "cache_note cdc cfg c n s =
     redis_set (note_cache_key (id' n)) (model_dump_json cdc n) (note_cache_ttl_seconds cfg) s"

definition invalidate_note_cache ::
  "redis_client \<Rightarrow> int \<Rightarrow> redis \<Rightarrow> (error + unit) \<times> redis" where
  "invalidate_note_cache c note_id s =
     (case redis_delete (note_cache_key note_id) s of
        (Inl e, s1) \<Rightarrow> (Inl e, s1)
      | (Inr n, s1) \<Rightarrow> (Inr (), s1))"

subsection \<open>\<^verbatim>\<open>app/recent.py\<close>\<close>

definition recent_key :: "string \<Rightarrow> string" where
  "recent_key ip = ''recent:ip:'' @ ip"

definition push_recent_note ::
  "settings \<Rightarrow> redis_client \<Rightarrow> string \<Rightarrow> int \<Rightarrow> redis \<Rightarrow> (error + unit) \<times> redis" where
  "push_recent_note cfg c ip note_id s =
     (let key = recent_key ip
      in case execute
                [LREM key 0 (py_str note_id),
                 LPUSH key (py_str note_id),
                 LTRIM key 0 (recent_notes_limit cfg - 1),
                 EXPIRE key (rate_limit_window_seconds cfg) False] s of
           (Inl e, s1) \<Rightarrow> (Inl e, s1)
         | (Inr rs, s1) \<Rightarrow> (Inr (), s1))"

text \<open>\<^verbatim>\<open>[int(v) for v in values]\<close>: the first element that is not a number raises.\<close>

fun ints :: "string list \<Rightarrow> error + int list" where
  "ints [] = Inr []"
| "ints (v # vs) =
     (case py_int v of
        Inl e \<Rightarrow> Inl e
      | Inr i \<Rightarrow> (case ints vs of Inl e \<Rightarrow> Inl e | Inr xs \<Rightarrow> Inr (i # xs)))"

definition get_recent_notes ::
  "settings \<Rightarrow> redis_client \<Rightarrow> string \<Rightarrow> redis \<Rightarrow> error + int list" where
  "get_recent_notes cfg c ip s =
     (let key = recent_key ip
      in case redis_lrange key 0 (recent_notes_limit cfg - 1) s of
           Inl e \<Rightarrow> Inl e
         | Inr vs \<Rightarrow> ints vs)"

text \<open>A client that reads notes one after another, each after some milliseconds.\<close>

fun pushes :: "settings \<Rightarrow> redis_client \<Rightarrow> string \<Rightarrow> (nat \<times> int) list \<Rightarrow> redis \<Rightarrow> redis" where
  "pushes cfg c ip [] s = s"
| "pushes cfg c ip ((d, note_id) # evs) s =
     pushes cfg c ip evs (snd (push_recent_note cfg c ip note_id (elapse d s)))"

text \<open>
  The identifiers of a sequence of pushes, the most recent push of each, newest first.
  \<open>survivors\<close> are the pushes that a list still reflects: a push that comes more than
  the list's time to live after the one before it finds the list expired.
\<close>

definition mru :: "int list \<Rightarrow> int list" where
  "mru ids = rev (remdups ids)"

fun survivors :: "settings \<Rightarrow> int list \<Rightarrow> (nat \<times> int) list \<Rightarrow> int list" where
  "survivors cfg pre [] = pre"
| "survivors cfg pre ((d, x) # evs) =
     survivors cfg
       ((if int d \<le> 1000 * rate_limit_window_seconds cfg then pre else []) @ [x]) evs"

text \<open>
  The server answers and keeps the list \<open>L\<close> of identifiers under the key, written at
  the current time (no key when \<open>L\<close> is empty).
\<close>

definition holds_recent :: "settings \<Rightarrow> string \<Rightarrow> int list \<Rightarrow> redis \<Rightarrow> bool" where
  "holds_recent cfg k L s \<longleftrightarrow>
     fault s = None \<and>
     (if L = [] then lookupKey s k = None
      else store s k =
             Some \<lparr>stored = RList (map py_str L),
                   expire_at = Some (clock s + 1000 * rate_limit_window_seconds cfg)\<rparr>)"

text \<open>The list that the server keeps under a key, as \<^verbatim>\<open>LRANGE key 0 -1\<close> would show it.\<close>

definition recent_list :: "redis \<Rightarrow> string \<Rightarrow> string list" where
  "recent_list s k =
     (case lookupKey s k of
        None \<Rightarrow> []
      | Some e \<Rightarrow> (case stored e of RList xs \<Rightarrow> xs | RString v \<Rightarrow> []))"

subsection \<open>\<^verbatim>\<open>app/main.py\<close>\<close>

text \<open>
  The wrappers: nothing is done without a client object, and a \<^verbatim>\<open>RedisError\<close> of the
  call is swallowed. Any other error of the call goes on to the caller.
\<close>

definition safe_cache_note ::
  "'p codec \<Rightarrow> settings \<Rightarrow> redis_client option \<Rightarrow> Note \<Rightarrow> redis \<Rightarrow> (error + unit) \<times> redis" where
  "safe_cache_note cdc cfg cl n s =
     (case cl of
        None \<Rightarrow> (Inr (), s)
      | Some c \<Rightarrow>
          (case cache_note cdc cfg c n s of
             (Inl (RedisError e), s1) \<Rightarrow> (Inr (), s1)
           | (r, s1) \<Rightarrow> (r, s1)))"

definition safe_get_cached_note ::
  "'p codec \<Rightarrow> redis_client option \<Rightarrow> int \<Rightarrow> redis \<Rightarrow> error + Note option" where
  "safe_get_cached_note cdc cl note_id s =
     (case cl of
        None \<Rightarrow> Inr None
      | Some c \<Rightarrow>
          (case get_cached_note cdc c note_id s of
             Inl (RedisError e) \<Rightarrow> Inr None
           | r \<Rightarrow> r))"

definition safe_invalidate_cache ::
  "redis_client option \<Rightarrow> int \<Rightarrow> redis \<Rightarrow> (error + unit) \<times> redis" where
  "safe_invalidate_cache cl note_id s =
     (case cl of
        None \<Rightarrow> (Inr (), s)
      | Some c \<Rightarrow>
          (case invalidate_note_cache c note_id s of
             (Inl (RedisError e), s1) \<Rightarrow> (Inr (), s1)
           | (r, s1) \<Rightarrow> (r, s1)))"

definition safe_push_recent ::
  "settings \<Rightarrow> redis_client option \<Rightarrow> request \<Rightarrow> int \<Rightarrow> redis \<Rightarrow> (error + unit) \<times> redis" where
  "safe_push_recent cfg cl req note_id s =
     (case cl of
        None \<Rightarrow> (Inr (), s)
      | Some c \<Rightarrow>
          (case client req of
             None \<Rightarrow> (Inr (), s)
           | Some a \<Rightarrow>
               (case push_recent_note cfg c (host a) note_id s of
                  (Inl (RedisError e), s1) \<Rightarrow> (Inr (), s1)
                | (r, s1) \<Rightarrow> (r, s1))))"

definition safe_get_recent ::
  "settings \<Rightarrow> redis_client option \<Rightarrow> request \<Rightarrow> redis \<Rightarrow> error + int list" where
  "safe_get_recent cfg cl req s =
     (case cl of
        None \<Rightarrow> Inr []
      | Some c \<Rightarrow>
          (case client req of
             None \<Rightarrow> Inr []
           | Some a \<Rightarrow>
               (case get_recent_notes cfg c (host a) s of
                  Inl (RedisError e) \<Rightarrow> Inr []
                | r \<Rightarrow> r)))"

definition not_found :: error where
  "not_found = HTTPException HTTP_404_NOT_FOUND ''Note not found''"

text \<open>
  \<^verbatim>\<open>GET /notes/{note_id}\<close>. The part of the handler after the cache has been tried
  (lines 74 to 81) is \<open>read_note_db\<close>.
\<close>

definition read_note_db ::
  "'p codec \<Rightarrow> settings \<Rightarrow> int \<Rightarrow> request \<Rightarrow> db \<Rightarrow> redis_client option \<Rightarrow> bool \<Rightarrow> redis \<Rightarrow>
     (error + Note) \<times> redis" where
  "read_note_db cdc cfg note_id req db cl include_deleted s =
     (case get_note db note_id include_deleted of
        None \<Rightarrow> (Inl not_found, s)
      | Some n \<Rightarrow>
          (case model_validate n of
             Inl e \<Rightarrow> (Inl e, s)
           | Inr note_schema \<Rightarrow>
               (case safe_cache_note cdc cfg cl note_schema s of
                  (Inl e, s1) \<Rightarrow> (Inl e, s1)
                | (Inr u, s1) \<Rightarrow>
                    (case safe_push_recent cfg cl req note_id s1 of
                       (Inl e, s2) \<Rightarrow> (Inl e, s2)
                     | (Inr v, s2) \<Rightarrow> (Inr note_schema, s2)))))"

definition read_note ::
  "'p codec \<Rightarrow> settings \<Rightarrow> int \<Rightarrow> request \<Rightarrow> db \<Rightarrow> redis_client option \<Rightarrow> bool \<Rightarrow> bool \<Rightarrow>
     redis \<Rightarrow> (error + Note) \<times> redis" where
  "read_note cdc cfg note_id req db cl use_cache include_deleted s =
     (if use_cache
      then (case safe_get_cached_note cdc cl note_id s of
              Inl e \<Rightarrow> (Inl e, s)
            | Inr (Some note_schema) \<Rightarrow>
                (case safe_push_recent cfg cl req note_id s of
                   (Inl e, s1) \<Rightarrow> (Inl e, s1)
                 | (Inr u, s1) \<Rightarrow> (Inr note_schema, s1))
            | Inr None \<Rightarrow> read_note_db cdc cfg note_id req db cl include_deleted s)
      else read_note_db cdc cfg note_id req db cl include_deleted s)"

text \<open>\<^verbatim>\<open>DELETE /notes/{note_id}\<close>.\<close>

definition delete_note ::
  "int \<Rightarrow> db \<Rightarrow> redis_client option \<Rightarrow> datetime \<Rightarrow> redis \<Rightarrow> (error + Note) \<times> db \<times> redis" where
  "delete_note note_id db cl now s =
     (case get_note db note_id True of
        None \<Rightarrow> (Inl not_found, db, s)
      | Some n \<Rightarrow>
          if is_deleted n then (Inl not_found, db, s)
          else (case soft_delete_note db n now of
                  (n1, db1) \<Rightarrow>
                    (case model_validate n1 of
                       Inl e \<Rightarrow> (Inl e, db1, s)
                     | Inr note_schema \<Rightarrow>
                         (case safe_invalidate_cache cl note_id s of
                            (Inl e, s1) \<Rightarrow> (Inl e, db1, s1)
                          | (Inr u, s1) \<Rightarrow> (Inr note_schema, db1, s1)))))"

subsection \<open>\<^verbatim>\<open>app/redis_client.py\<close>\<close>

text \<open>
  The module keeps the client object in a global and creates it on the first call, under
  a lock. \<^verbatim>\<open>redis.from_url\<close> builds the object and opens no connection. \<open>serial\<close> tells
  one created object from another; \<open>created\<close> counts the calls of \<^verbatim>\<open>from_url\<close>.
\<close>

definition from_url :: "string \<Rightarrow> nat \<Rightarrow> redis_client" where
  "from_url u n = \<lparr>url = u, serial = n\<rparr>"

text \<open>
  Callers run concurrently. Each caller is at one line of \<^verbatim>\<open>get_redis\<close>; a step runs
  that line for one caller, and a caller that waits for the lock does not move.
\<close>

datatype pc = AtCheck | AtAcquire | AtRecheck | AtCreate | AtRelease | AtReturn | Returned

record process =
  redis_instance :: "redis_client option"
  locked :: bool
  created :: nat
  pcs :: "nat \<Rightarrow> pc"
  returned :: "nat \<Rightarrow> redis_client option"

definition goto :: "nat \<Rightarrow> pc \<Rightarrow> process \<Rightarrow> process" where
  "goto t l p = p\<lparr>pcs := (pcs p)(t := l)\<rparr>"

definition step :: "settings \<Rightarrow> nat \<Rightarrow> process \<Rightarrow> process" where
  "step cfg t p =
     (case pcs p t of
        AtCheck \<Rightarrow> if redis_instance p = None then goto t AtAcquire p else goto t AtReturn p
      | AtAcquire \<Rightarrow> if locked p then p else goto t AtRecheck (p\<lparr>locked := True\<rparr>)
      | AtRecheck \<Rightarrow> if redis_instance p = None then goto t AtCreate p else goto t AtRelease p
      | AtCreate \<Rightarrow>
          goto t AtRelease
            (p\<lparr>redis_instance := Some (from_url (redis_url cfg) (created p)),
               created := created p + 1\<rparr>)
      | AtRelease \<Rightarrow> goto t AtReturn (p\<lparr>locked := False\<rparr>)
      | AtReturn \<Rightarrow> goto t Returned (p\<lparr>returned := (returned p)(t := redis_instance p)\<rparr>)
      | Returned \<Rightarrow> p)"

fun run :: "settings \<Rightarrow> nat list \<Rightarrow> process \<Rightarrow> process" where
  "run cfg [] p = p"
| "run cfg (t # ts) p = run cfg ts (step cfg t p)"

definition boot :: process where
  "boot =
     \<lparr>redis_instance = None, locked = False, created = 0,
      pcs = (\<lambda>t. AtCheck), returned = (\<lambda>t. None)\<rparr>"

text \<open>One call on its own, with the lock free: the function as it is written.\<close>

definition get_redis :: "settings \<Rightarrow> process \<Rightarrow> redis_client option \<times> process" where
  "get_redis cfg p =
     (let p1 =
        (if redis_instance p = None
         then (if redis_instance p = None
               then p\<lparr>redis_instance := Some (from_url (redis_url cfg) (created p)),
                      created := created p + 1\<rparr>
               else p)
         else p)
      in (redis_instance p1, p1))"

text \<open>
  What holds of the process whatever the callers have done so far; \<open>h\<close> is the caller
  that holds the lock, if any.
\<close>

definition in_lock :: "pc \<Rightarrow> bool" where
  "in_lock l \<longleftrightarrow> l = AtRecheck \<or> l = AtCreate \<or> l = AtRelease"

definition has_client :: "pc \<Rightarrow> bool" where
  "has_client l \<longleftrightarrow> l = AtRelease \<or> l = AtReturn \<or> l = Returned"

definition holder_inv :: "nat option \<Rightarrow> process \<Rightarrow> bool" where
  "holder_inv h p \<longleftrightarrow>
     locked p = (h \<noteq> None) \<and>
     (\<forall>u. in_lock (pcs p u) = (h = Some u)) \<and>
     created p = (if redis_instance p = None then 0 else 1) \<and>
     (\<forall>u. pcs p u = AtCreate \<longrightarrow> redis_instance p = None) \<and>
     (\<forall>u. has_client (pcs p u) \<longrightarrow> redis_instance p \<noteq> None) \<and>
     (\<forall>u. returned p u = (if pcs p u = Returned then redis_instance p else None))"

definition process_inv :: "process \<Rightarrow> bool" where
  "process_inv p \<longleftrightarrow> (\<exists>h. holder_inv h p)"

subsection \<open>A JSON codec\<close>

text \<open>
  An instance of the three library calls, for the concrete runs below: notes are written
  as a JSON object with the fields in the order of the model, and read with a parser of
  JSON text (objects, arrays, strings with the escapes of the quote and the backslash,
  integers, \<^verbatim>\<open>true\<close>, \<^verbatim>\<open>false\<close>, \<^verbatim>\<open>null\<close>). The parser takes a bound on its recursion.
\<close>

datatype json =
    JNull
  | JBool bool
  | JNumber int
  | JString string
  | JArray "json list"
  | JObject "(string \<times> json) list"

definition dq :: char where
  "dq = CHR 0x22"

definition bs :: char where
  "bs = CHR 0x5C"

fun escape :: "string \<Rightarrow> string" where
  "escape [] = []"
| "escape (c # cs) = (if c = dq \<or> c = bs then bs # c # escape cs else c # escape cs)"

definition quote :: "string \<Rightarrow> string" where
  "quote v = dq # escape v @ [dq]"

fun join :: "string \<Rightarrow> string list \<Rightarrow> string" where
  "join sep [] = []"
| "join sep [x] = x"
| "join sep (x # y # ys) = x @ sep @ join sep (y # ys)"

definition dump_json :: "Note \<Rightarrow> string" where
  "dump_json n =
     ''{'' @ quote ''title'' @ '':'' @ quote (title n) @
     '','' @ quote ''content'' @ '':'' @ quote (content n) @
     '','' @ quote ''tags'' @ '':'' @
       (case tags n of None \<Rightarrow> ''null'' | Some ts \<Rightarrow> ''['' @ join '','' (map quote ts) @ '']'') @
     '','' @ quote ''id'' @ '':'' @ py_str (id' n) @
     '','' @ quote ''created_at'' @ '':'' @ py_str (created_at n) @
     '','' @ quote ''updated_at'' @ '':'' @ py_str (updated_at n) @
     '','' @ quote ''is_deleted'' @ '':'' @ (if is_deleted n then ''true'' else ''false'') @
     '','' @ quote ''deleted_at'' @ '':'' @
       (case deleted_at n of None \<Rightarrow> ''null'' | Some t \<Rightarrow> py_str t) @
     ''}''"

definition is_ws :: "char \<Rightarrow> bool" where
  "is_ws c \<longleftrightarrow> c = CHR '' '' \<or> c = CHR 0x0A \<or> c = CHR 0x0D \<or> c = CHR 0x09"

definition skip_ws :: "string \<Rightarrow> string" where
  "skip_ws cs = dropWhile is_ws cs"

definition expect :: "string \<Rightarrow> string \<Rightarrow> string option" where
  "expect p cs = (if take (length p) cs = p then Some (drop (length p) cs) else None)"

fun string_body :: "string \<Rightarrow> (string \<times> string) option" where
  "string_body [] = None"
| "string_body (c # cs) =
     (if c = dq then Some ([], cs)
      else if c = bs then
        (case cs of
           [] \<Rightarrow> None
         | e # cs1 \<Rightarrow>
             if e = dq \<or> e = bs
             then (case string_body cs1 of None \<Rightarrow> None | Some (v, rest) \<Rightarrow> Some (e # v, rest))
             else None)
      else (case string_body cs of None \<Rightarrow> None | Some (v, rest) \<Rightarrow> Some (c # v, rest)))"

definition number :: "string \<Rightarrow> (int \<times> string) option" where
  "number cs =
     (case string2ll (takeWhile (\<lambda>c. c = CHR ''-'' \<or> digit_val c \<noteq> None) cs) of
        None \<Rightarrow> None
      | Some i \<Rightarrow> Some (i, dropWhile (\<lambda>c. c = CHR ''-'' \<or> digit_val c \<noteq> None) cs))"

fun parse_value :: "nat \<Rightarrow> string \<Rightarrow> (json \<times> string) option"
  and parse_elems :: "nat \<Rightarrow> string \<Rightarrow> (json list \<times> string) option"
  and parse_members :: "nat \<Rightarrow> string \<Rightarrow> ((string \<times> json) list \<times> string) option" where
  "parse_value 0 cs = None"
| "parse_value (Suc f) cs =
     (case skip_ws cs of
        [] \<Rightarrow> None
      | c # r \<Rightarrow>
          if c = dq then
            (case string_body r of None \<Rightarrow> None | Some (v, rest) \<Rightarrow> Some (JString v, rest))
          else if c = CHR ''['' then
            (case expect '']'' (skip_ws r) of
               Some rest \<Rightarrow> Some (JArray [], rest)
             | None \<Rightarrow>
                 (case parse_elems f r of None \<Rightarrow> None | Some (xs, rest) \<Rightarrow> Some (JArray xs, rest)))
          else if c = CHR ''{'' then
            (case expect ''}'' (skip_ws r) of
               Some rest \<Rightarrow> Some (JObject [], rest)
             | None \<Rightarrow>
                 (case parse_members f r of
                    None \<Rightarrow> None
                  | Some (kvs, rest) \<Rightarrow> Some (JObject kvs, rest)))
          else if c = CHR ''n'' then map_option (Pair JNull) (expect ''ull'' r)
          else if c = CHR ''t'' then map_option (Pair (JBool True)) (expect ''rue'' r)
          else if c = CHR ''f'' then map_option (Pair (JBool False)) (expect ''alse'' r)
          else (case number (c # r) of None \<Rightarrow> None | Some (i, rest) \<Rightarrow> Some (JNumber i, rest)))"
| "parse_elems 0 cs = None"
| "parse_elems (Suc f) cs =
     (case parse_value f cs of
        None \<Rightarrow> None
      | Some (x, r) \<Rightarrow>
          (case expect '','' (skip_ws r) of
             Some r1 \<Rightarrow>
               (case parse_elems f r1 of None \<Rightarrow> None | Some (xs, rest) \<Rightarrow> Some (x # xs, rest))
           | None \<Rightarrow> map_option (Pair [x]) (expect '']'' (skip_ws r))))"
| "parse_members 0 cs = None"
| "parse_members (Suc f) cs =
     (case expect [dq] (skip_ws cs) of
        None \<Rightarrow> None
      | Some r0 \<Rightarrow>
          (case string_body r0 of
             None \<Rightarrow> None
           | Some (k, r1) \<Rightarrow>
               (case expect '':'' (skip_ws r1) of
                  None \<Rightarrow> None
                | Some r2 \<Rightarrow>
                    (case parse_value f r2 of
                       None \<Rightarrow> None
                     | Some (v, r3) \<Rightarrow>
                         (case expect '','' (skip_ws r3) of
                            Some r4 \<Rightarrow>
                              (case parse_members f r4 of
                                 None \<Rightarrow> None
                               | Some (kvs, rest) \<Rightarrow> Some ((k, v) # kvs, rest))
                          | None \<Rightarrow> map_option (Pair [(k, v)]) (expect ''}'' (skip_ws r3)))))))"

definition loads_json :: "string \<Rightarrow> error + json" where
  "loads_json data =
     (case parse_value (Suc (Suc (length data + length data))) data of
        None \<Rightarrow> Inl JSONDecodeError
      | Some (j, rest) \<Rightarrow> if skip_ws rest = [] then Inr j else Inl JSONDecodeError)"

text \<open>The fields of the object, each of the type the model declares, then the bounds.\<close>

fun strings :: "json list \<Rightarrow> string list option" where
  "strings [] = Some []"
| "strings (JString v # js) = map_option ((#) v) (strings js)"
| "strings (j # js) = None"

fun as_tags :: "json option \<Rightarrow> string list option option" where
  "as_tags None = Some None"
| "as_tags (Some JNull) = Some None"
| "as_tags (Some (JArray js)) = map_option Some (strings js)"
| "as_tags (Some j) = None"

fun as_time :: "json option \<Rightarrow> datetime option option" where
  "as_time None = Some None"
| "as_time (Some JNull) = Some None"
| "as_time (Some (JNumber t)) = Some (Some t)"
| "as_time (Some j) = None"

definition note_of_json :: "json \<Rightarrow> error + Note" where
  "note_of_json j =
     (case j of
        JObject kvs \<Rightarrow>
          (case (map_of kvs ''title'', map_of kvs ''content'', as_tags (map_of kvs ''tags'')) of
             (Some (JString t), Some (JString c), Some ts) \<Rightarrow>
               (case (map_of kvs ''id'', map_of kvs ''created_at'', map_of kvs ''updated_at'') of
                  (Some (JNumber i), Some (JNumber ca), Some (JNumber ua)) \<Rightarrow>
                    (case (map_of kvs ''is_deleted'', as_time (map_of kvs ''deleted_at'')) of
                       (Some (JBool d), Some da) \<Rightarrow>
                         model_validate
                           \<lparr>title = t, content = c, tags = ts, id' = i, created_at = ca,
                            updated_at = ua, is_deleted = d, deleted_at = da\<rparr>
                     | _ \<Rightarrow> Inl ValidationError)
                | _ \<Rightarrow> Inl ValidationError)
           | _ \<Rightarrow> Inl ValidationError)
      | _ \<Rightarrow> Inl ValidationError)"

definition json_codec :: "json codec" where
  "json_codec =
     \<lparr>model_dump_json = dump_json, json_loads = loads_json, Note_init = note_of_json\<rparr>"



definition num_char :: "char \<Rightarrow> bool" where
  "num_char c \<longleftrightarrow> c = CHR ''-'' \<or> digit_val c \<noteq> None"

subsection \<open>Concrete inputs\<close>

text \<open>An empty server at time 0, a request from an address, and the client object.\<close>

definition s0 :: redis where
  "s0 = \<lparr>fault = None, clock = 0, store = (\<lambda>k. None)\<rparr>"

definition req0 :: request where
  "req0 = \<lparr>client = Some \<lparr>host = ''10.0.0.7'', port = 51000\<rparr>\<rparr>"

definition c0 :: redis_client where
  "c0 = \<lparr>url = redis_url get_settings, serial = 0\<rparr>"

text \<open>At most 3 requests in 60 seconds; and a limit of 0 requests.\<close>

definition cfg3 :: settings where
  "cfg3 = get_settings\<lparr>rate_limit := 3, rate_limit_window_seconds := 60\<rparr>"

definition cfg0 :: settings where
  "cfg0 = get_settings\<lparr>rate_limit := 0, rate_limit_window_seconds := 60\<rparr>"

text \<open>A schedule of two callers, 0 and 1, that race for the first call.\<close>

definition race :: "nat list" where
  "race = [0, 1, 0, 1, 0, 0, 0, 0, 1, 1, 1, 1]"

text \<open>A maximum of 0 recent notes.\<close>

definition cfgz :: settings where
  "cfgz = get_settings\<lparr>recent_notes_limit := 0\<rparr>"

text \<open>
  A table with note 1 and the soft-deleted note 2, and servers whose cache entry of
  note 1 is not JSON text, or is JSON text that is not a note.
\<close>

definition note1 :: Note where
  "note1 =
     \<lparr>title = ''Shopping'', content = ''milk, eggs'', tags = Some [''home'', ''todo''],
      id' = 1, created_at = 1700, updated_at = 1700, is_deleted = False, deleted_at = None\<rparr>"

definition note2 :: Note where
  "note2 =
     \<lparr>title = ''Old'', content = ''gone'', tags = None,
      id' = 2, created_at = 1500, updated_at = 1600, is_deleted = True, deleted_at = Some 1600\<rparr>"

definition db1 :: db where
  "db1 = ((\<lambda>i. None)(1 := Some note1))(2 := Some note2)"

definition s_bad :: redis where
  "s_bad = setKey (note_cache_key 1) \<lparr>stored = RString ''not json'', expire_at = None\<rparr> s0"

definition s_odd :: redis where
  "s_odd = setKey (note_cache_key 1) \<lparr>stored = RString ''{}'', expire_at = None\<rparr> s0"

section \<open>Properties\<close>

subsection \<open>Decimal text\<close>

lemma digit_val_digit_char: "d < 10 \<Longrightarrow> digit_val (digit_char d) = Some d"
proof -
  assume "d < 10"
  then have "d \<in> {0, 1, 2, 3, 4, 5, 6, 7, 8, 9}" by auto
  then show ?thesis by (auto simp: digit_val_def digit_char_def)
qed

lemma digits_val_append:
  "digits_val acc (cs @ ds) =
     (case digits_val acc cs of None \<Rightarrow> None | Some a \<Rightarrow> digits_val a ds)"
  by (induction cs arbitrary: acc) (auto split: option.splits)

lemma digits_val_str_nat: "digits_val 0 (str_nat n) = Some n"
proof (induction n rule: str_nat.induct)
  case (1 n)
  show ?case
  proof (cases "n < 10")
    case True
    then show ?thesis by (subst str_nat.simps) (simp add: digit_val_digit_char)
  next
    case False
    with 1 have "digits_val 0 (str_nat (n div 10)) = Some (n div 10)" by simp
    with False show ?thesis
      by (subst str_nat.simps) (simp add: digits_val_append digit_val_digit_char)
  qed
qed

lemma str_nat_nonempty: "str_nat n \<noteq> []"
  by (subst str_nat.simps) simp

lemma nat_of_digits_str_nat: "nat_of_digits (str_nat n) = Some n"
  by (simp add: nat_of_digits_def str_nat_nonempty digits_val_str_nat)

lemma str_nat_no_sign: "str_nat n = c # cs \<Longrightarrow> c \<noteq> CHR ''-'' \<and> c \<noteq> CHR ''+''"
proof -
  assume a: "str_nat n = c # cs"
  have "digits_val 0 (c # cs) = Some n" using digits_val_str_nat [of n] a by simp
  then have "digit_val c \<noteq> None" by (auto split: option.splits)
  then show ?thesis by (auto simp: digit_val_def)
qed

lemma int_of_string_py_str: "int_of_string (py_str i) = Some i"
proof (cases "i < 0")
  case True
  then show ?thesis by (simp add: int_of_string_def py_str_def nat_of_digits_str_nat)
next
  case False
  obtain c cs where cs: "str_nat (nat i) = c # cs"
    using str_nat_nonempty [of "nat i"] by (cases "str_nat (nat i)") auto
  from str_nat_no_sign [OF cs] have "c \<noteq> CHR ''-''" "c \<noteq> CHR ''+''" by auto
  moreover have "nat_of_digits (c # cs) = Some (nat i)"
    using nat_of_digits_str_nat [of "nat i"] cs by simp
  ultimately show ?thesis using False cs by (simp add: int_of_string_def py_str_def)
qed

lemma string2ll_py_str: "string2ll (py_str i) = Some i"
  by (simp add: string2ll_def int_of_string_py_str)

lemma py_int_py_str: "py_int (py_str i) = Inr i"
  by (simp add: py_int_def int_of_string_py_str)

lemma py_str_inj: "py_str i = py_str j \<Longrightarrow> i = j"
  by (metis int_of_string_py_str option.inject)

subsection \<open>The rate limiter\<close>

lemma lookupKey_elapse_None: "lookupKey s k = None \<Longrightarrow> lookupKey (elapse d s) k = None"
  by (auto simp: lookupKey_def elapse_def expired_def split: option.splits if_splits)

text \<open>The first request of a window opens the counter at 1 and sets its expire time.\<close>

lemma rate_limiter_fresh:
  assumes "fault s = None" and "lookupKey s (rate_limit_key (client_ip req)) = None"
    and "0 < rate_limit_window_seconds cfg"
  shows "rate_limiter cfg req (Some c) s =
           (if 1 > rate_limit cfg then rate_limited else Inr (),
            setKey (rate_limit_key (client_ip req))
              \<lparr>stored = RString (py_str 1),
               expire_at = Some (clock s + 1000 * rate_limit_window_seconds cfg)\<rparr> s)"
  using assms
  by (simp add: rate_limiter_def execute_def client_ip_def rate_limited_def lookupKey_def
      setKey_def expired_def)

text \<open>A later request of the window adds 1 and leaves the expire time as it is.\<close>

lemma rate_limiter_live:
  assumes "fault s = None"
    and "store s (rate_limit_key (client_ip req)) =
           Some \<lparr>stored = RString (py_str n), expire_at = Some w\<rparr>"
    and "clock s \<le> w"
  shows "rate_limiter cfg req (Some c) s =
           (if n + 1 \<noteq> 0 \<and> n + 1 > rate_limit cfg then rate_limited else Inr (),
            setKey (rate_limit_key (client_ip req))
              \<lparr>stored = RString (py_str (n + 1)), expire_at = Some w\<rparr> s)"
  using assms
  by (simp add: rate_limiter_def execute_def client_ip_def rate_limited_def lookupKey_def
      setKey_def expired_def string2ll_py_str)

lemma window_counter: "window k n w s \<Longrightarrow> counter s k = Some n"
  by (simp add: window_def counter_def lookupKey_def expired_def string2ll_py_str)

lemma requests_live:
  assumes "window (rate_limit_key (client_ip req)) n w s" and "0 \<le> n"
    and "clock s + int (sum_list ds) \<le> w"
    and "requests cfg req (Some c) ds s = (rs, s')"
  shows "window (rate_limit_key (client_ip req)) (n + int (length ds)) w s' \<and>
         clock s' = clock s + int (sum_list ds) \<and>
         rs = map (\<lambda>i. if n + int i + 1 > rate_limit cfg then rate_limited else Inr ())
                [0..<length ds]"
  using assms
proof (induction ds arbitrary: s n rs s')
  case Nil
  then show ?case by simp
next
  case (Cons d ds)
  let ?k = "rate_limit_key (client_ip req)"
  let ?s0 = "elapse d s"
  have w0: "fault ?s0 = None"
    "store ?s0 ?k = Some \<lparr>stored = RString (py_str n), expire_at = Some w\<rparr>"
    "clock ?s0 \<le> w"
    using Cons.prems by (auto simp: window_def elapse_def)
  obtain r s1 where step: "rate_limiter cfg req (Some c) ?s0 = (r, s1)" by fastforce
  have r: "r = (if n + 1 > rate_limit cfg then rate_limited else Inr ())"
    and s1: "s1 = setKey ?k \<lparr>stored = RString (py_str (n + 1)), expire_at = Some w\<rparr> ?s0"
    using step rate_limiter_live [OF w0, of cfg c] Cons.prems(2) by auto
  obtain rs1 s2 where rest: "requests cfg req (Some c) ds s1 = (rs1, s2)" by fastforce
  have win1: "window ?k (n + 1) w s1"
    using w0 s1 by (simp add: window_def setKey_def)
  have clk: "clock s1 = clock s + int d" using s1 by (simp add: setKey_def elapse_def)
  have ih: "window ?k (n + 1 + int (length ds)) w s2 \<and>
      clock s2 = clock s1 + int (sum_list ds) \<and>
      rs1 = map (\<lambda>i. if n + 1 + int i + 1 > rate_limit cfg then rate_limited else Inr ())
              [0..<length ds]"
    using Cons.IH [OF win1 _ _ rest] Cons.prems clk by simp
  have out: "rs = r # rs1" "s' = s2" using Cons.prems(4) step rest by auto
  have "map (\<lambda>i. if n + int i + 1 > rate_limit cfg then rate_limited else Inr ())
          [0..<length (d # ds)] = r # rs1"
    using r ih by (simp add: upt_conv_Cons map_Suc_upt [symmetric] del: upt_Suc)
  then show ?case using ih out clk by (simp add: algebra_simps)
qed

text \<open>
  The state in which a window opens: the server answers and the client's counter is
  absent or expired. \<open>d0\<close> is the time before the first request and \<open>ds\<close> are the times
  between the requests that follow; they all fall before the counter expires.
\<close>

lemma requests_window:
  assumes up: "fault s = None"
    and fresh: "lookupKey s (rate_limit_key (client_ip req)) = None"
    and win: "0 < rate_limit_window_seconds cfg"
    and within: "int (sum_list ds) \<le> 1000 * rate_limit_window_seconds cfg"
    and run: "requests cfg req (Some c) (d0 # ds) s = (rs, s')"
  shows "window (rate_limit_key (client_ip req)) (1 + int (length ds))
           (clock s + int d0 + 1000 * rate_limit_window_seconds cfg) s' \<and>
         clock s' = clock s + int d0 + int (sum_list ds) \<and>
         rs = map (\<lambda>i. if int i + 1 > rate_limit cfg then rate_limited else Inr ())
                [0..<length (d0 # ds)]"
proof -
  let ?k = "rate_limit_key (client_ip req)"
  let ?W = "rate_limit_window_seconds cfg"
  let ?s0 = "elapse d0 s"
  let ?w = "clock ?s0 + 1000 * ?W"
  have up0: "fault ?s0 = None" using up by (simp add: elapse_def)
  have fresh0: "lookupKey ?s0 ?k = None" using fresh by (rule lookupKey_elapse_None)
  obtain r s1 where step: "rate_limiter cfg req (Some c) ?s0 = (r, s1)" by fastforce
  have r: "r = (if 1 > rate_limit cfg then rate_limited else Inr ())"
    and s1: "s1 = setKey ?k \<lparr>stored = RString (py_str 1), expire_at = Some ?w\<rparr> ?s0"
    using step rate_limiter_fresh [OF up0 fresh0 win, of c] by auto
  have win1: "window ?k 1 ?w s1"
    using s1 up0 win by (simp add: window_def setKey_def)
  have clk1: "clock s1 = clock ?s0" using s1 by (simp add: setKey_def)
  obtain rs1 where rest: "requests cfg req (Some c) ds s1 = (rs1, s')" and rs: "rs = r # rs1"
    using run step by (auto split: prod.splits)
  have live: "window ?k (1 + int (length ds)) ?w s' \<and>
      clock s' = clock s1 + int (sum_list ds) \<and>
      rs1 = map (\<lambda>i. if 1 + int i + 1 > rate_limit cfg then rate_limited else Inr ())
              [0..<length ds]"
    using requests_live [OF win1 _ _ rest] within clk1 by simp
  have "rs = map (\<lambda>i. if int i + 1 > rate_limit cfg then rate_limited else Inr ())
               [0..<length (d0 # ds)]"
    using r rs live
    by (simp add: upt_conv_Cons map_Suc_upt [symmetric] add.commute del: upt_Suc)
  then show ?thesis using live clk1 by (simp add: elapse_def)
qed

text \<open>
  C1 (amended). A window opens with the first request of a client whose counter is
  absent or expired, on a server that answers, and lasts the configured (positive)
  number of seconds. After \<open>N\<close> requests in the window the counter is \<open>N\<close>; the \<open>i\<close>-th
  request is rejected with the 429 outcome exactly when \<open>i\<close> exceeds the limit, and so is
  request \<open>N + 1\<close> when it arrives in the window. A request that arrives after the counter
  expired sets the counter to 1; it is let through when the limit is at least 1 and
  rejected otherwise.
\<close>

theorem rate_limiter_counts_window:
  assumes up: "fault s = None"
    and fresh: "lookupKey s (rate_limit_key (client_ip req)) = None"
    and win: "0 < rate_limit_window_seconds cfg"
    and within: "int (sum_list ds) \<le> 1000 * rate_limit_window_seconds cfg"
    and run: "requests cfg req (Some c) (d0 # ds) s = (rs, s')"
  shows "counter s' (rate_limit_key (client_ip req)) = Some (int (length (d0 # ds))) \<and>
         rs = map (\<lambda>i. if int i + 1 > rate_limit cfg then rate_limited else Inr ())
                [0..<length (d0 # ds)] \<and>
         (\<forall>d. int (sum_list ds + d) \<le> 1000 * rate_limit_window_seconds cfg \<longrightarrow>
            fst (rate_limiter cfg req (Some c) (elapse d s')) =
              (if int (length (d0 # ds)) + 1 > rate_limit cfg then rate_limited else Inr ())) \<and>
         (\<forall>d. int (sum_list ds + d) > 1000 * rate_limit_window_seconds cfg \<longrightarrow>
            counter (snd (rate_limiter cfg req (Some c) (elapse d s')))
              (rate_limit_key (client_ip req)) = Some 1 \<and>
            fst (rate_limiter cfg req (Some c) (elapse d s')) =
              (if 1 \<le> rate_limit cfg then Inr () else rate_limited))"
proof -
  let ?k = "rate_limit_key (client_ip req)"
  let ?W = "rate_limit_window_seconds cfg"
  let ?w = "clock s + int d0 + 1000 * ?W"
  have live: "window ?k (1 + int (length ds)) ?w s'"
    and clk: "clock s' = clock s + int d0 + int (sum_list ds)"
    and c2: "rs = map (\<lambda>i. if int i + 1 > rate_limit cfg then rate_limited else Inr ())
                    [0..<length (d0 # ds)]"
    using requests_window [OF up fresh win within run] by auto
  have c1: "counter s' ?k = Some (int (length (d0 # ds)))"
    using window_counter [OF live] by (simp add: add.commute)
  have c3: "fst (rate_limiter cfg req (Some c) (elapse d s')) =
              (if int (length (d0 # ds)) + 1 > rate_limit cfg then rate_limited else Inr ())"
    if "int (sum_list ds + d) \<le> 1000 * ?W" for d
  proof -
    have "fault (elapse d s') = None"
      "store (elapse d s') ?k =
         Some \<lparr>stored = RString (py_str (1 + int (length ds))), expire_at = Some ?w\<rparr>"
      "clock (elapse d s') \<le> ?w"
      using live that clk by (auto simp: window_def elapse_def)
    from rate_limiter_live [OF this, of cfg c] show ?thesis by (simp add: add.commute)
  qed
  have c4: "counter (snd (rate_limiter cfg req (Some c) (elapse d s'))) ?k = Some 1 \<and>
            fst (rate_limiter cfg req (Some c) (elapse d s')) =
              (if 1 \<le> rate_limit cfg then Inr () else rate_limited)"
    if "int (sum_list ds + d) > 1000 * ?W" for d
  proof -
    have f: "fault (elapse d s') = None" using live by (simp add: window_def elapse_def)
    have "lookupKey (elapse d s') ?k = None"
      using live that clk by (simp add: window_def elapse_def lookupKey_def expired_def)
    from rate_limiter_fresh [OF f this win, of c] win show ?thesis
      by (auto simp: counter_def lookupKey_def setKey_def expired_def string2ll_py_str)
  qed
  from c1 c2 c3 c4 show ?thesis by blast
qed

text \<open>
  The scenario of the specification: limit 3, window 60 s. Three requests one second
  apart are let through, a fourth in the window is rejected, and a request 60.001 s
  after the first one is let through again.
\<close>

theorem rate_limiter_counts_window_scenario:
  "fst (requests cfg3 req0 (Some c0) [0, 1000, 1000] s0) = [Inr (), Inr (), Inr ()] \<and>
   counter (snd (requests cfg3 req0 (Some c0) [0, 1000, 1000] s0))
     (rate_limit_key (client_ip req0)) = Some 3 \<and>
   fst (rate_limiter cfg3 req0 (Some c0)
          (elapse 1000 (snd (requests cfg3 req0 (Some c0) [0, 1000, 1000] s0)))) = rate_limited \<and>
   fst (rate_limiter cfg3 req0 (Some c0)
          (elapse 58001 (snd (requests cfg3 req0 (Some c0) [0, 1000, 1000] s0)))) = Inr ()"
proof -
  let ?run = "requests cfg3 req0 (Some c0) [0, 1000, 1000] s0"
  have a: "fault s0 = None" by (simp add: s0_def)
  have b: "lookupKey s0 (rate_limit_key (client_ip req0)) = None"
    by (simp add: s0_def lookupKey_def)
  have c: "0 < rate_limit_window_seconds cfg3" by (simp add: cfg3_def get_settings_def)
  have d: "int (sum_list [1000, 1000]) \<le> 1000 * rate_limit_window_seconds cfg3"
    by (simp add: cfg3_def get_settings_def)
  have e: "?run = (fst ?run, snd ?run)" by simp
  have l: "rate_limit cfg3 = 3" "rate_limit_window_seconds cfg3 = 60"
    by (simp_all add: cfg3_def get_settings_def)
  from rate_limiter_counts_window [OF a b c d e] have
    "fst ?run = [Inr (), Inr (), Inr ()]"
    "counter (snd ?run) (rate_limit_key (client_ip req0)) = Some 3"
    and x: "\<forall>d. int (sum_list [1000, 1000] + d) \<le> 1000 * rate_limit_window_seconds cfg3 \<longrightarrow>
            fst (rate_limiter cfg3 req0 (Some c0) (elapse d (snd ?run))) =
              (if int (length [0::nat, 1000, 1000]) + 1 > rate_limit cfg3
               then rate_limited else Inr ())"
    and y: "\<forall>d. int (sum_list [1000, 1000] + d) > 1000 * rate_limit_window_seconds cfg3 \<longrightarrow>
            fst (rate_limiter cfg3 req0 (Some c0) (elapse d (snd ?run))) =
              (if 1 \<le> rate_limit cfg3 then Inr () else rate_limited)"
    by (simp_all add: l upt_conv_Cons del: upt_Suc)
  moreover from x [rule_format, of 1000] have
    "fst (rate_limiter cfg3 req0 (Some c0) (elapse 1000 (snd ?run))) = rate_limited"
    by (simp add: l)
  moreover from y [rule_format, of 58001] have
    "fst (rate_limiter cfg3 req0 (Some c0) (elapse 58001 (snd ?run))) = Inr ()"
    by (simp add: l)
  ultimately show ?thesis by blast
qed

text \<open>
  With a limit of 0 the first request of a new window is rejected: the counter of the
  first window has expired after 60.001 s, and the request that arrives then is answered
  with the 429 outcome.
\<close>

theorem rate_limiter_zero_limit_rejects_new_window:
  "lookupKey (elapse 60001 (snd (rate_limiter cfg0 req0 (Some c0) s0)))
     (rate_limit_key (client_ip req0)) = None \<and>
   fst (rate_limiter cfg0 req0 (Some c0)
          (elapse 60001 (snd (rate_limiter cfg0 req0 (Some c0) s0)))) = rate_limited"
  by (simp add: rate_limiter_def execute_def lookupKey_def setKey_def expired_def elapse_def
      py_str_def str_nat.simps digit_char_def string2ll_def int_of_string_def nat_of_digits_def
      digit_val_def rate_limit_key_def client_ip_def rate_limited_def s0_def req0_def c0_def
      get_settings_def cfg0_def)

subsection \<open>The expire time of a counter\<close>

lemma rate_limiter_store:
  "snd (rate_limiter cfg req (Some c) s) =
     snd (execute [INCRBY (rate_limit_key (client_ip req)) 1,
                   EXPIRE (rate_limit_key (client_ip req)) (rate_limit_window_seconds cfg) True] s)"
  by (simp add: rate_limiter_def client_ip_def Let_def
      split: prod.splits sum.splits error.splits list.splits reply.splits)

lemma execute_keeps_expiry:
  assumes "expiry s k = Some w"
  shows "expiry (snd (execute [INCRBY k 1, EXPIRE k secs True] s)) k = Some w"
proof (cases "fault s")
  case (Some e)
  then show ?thesis using assms by (simp add: execute_def)
next
  case None
  from assms obtain e where e: "lookupKey s k = Some e" "expire_at e = Some w"
    by (auto simp: expiry_def split: option.splits)
  then have st: "store s k = Some e" "\<not> clock s > w"
    by (auto simp: lookupKey_def expired_def split: option.splits if_splits)
  show ?thesis
  proof (cases "stored e")
    case (RList xs)
    then show ?thesis using None e assms by (simp add: execute_def)
  next
    case (RString v)
    show ?thesis
    proof (cases "string2ll v")
      case None' : None
      then show ?thesis using None e RString assms by (simp add: execute_def)
    next
      case (Some n)
      then show ?thesis using None e RString st
        by (simp add: execute_def expiry_def lookupKey_def setKey_def expired_def)
    qed
  qed
qed

text \<open>
  C6. The expire time of a client's counter is set once per window. A request that finds
  no live counter (on a server that answers, with a positive window length) leaves the
  counter expiring one window length after the request. A request that finds the key
  with an expire time leaves that expire time as it is, whatever the key holds and
  whether or not the server answers. The store changes by one batch, the increment and
  \<^verbatim>\<open>EXPIRE ... NX\<close>; the code asks no separate question about the key.
\<close>

theorem rate_limiter_expiry_set_once:
  "(fault s = None \<and> lookupKey s (rate_limit_key (client_ip req)) = None \<and>
      0 < rate_limit_window_seconds cfg \<longrightarrow>
      expiry (snd (rate_limiter cfg req (Some c) s)) (rate_limit_key (client_ip req)) =
        Some (clock s + 1000 * rate_limit_window_seconds cfg)) \<and>
   (\<forall>w. expiry s (rate_limit_key (client_ip req)) = Some w \<longrightarrow>
      expiry (snd (rate_limiter cfg req (Some c) s)) (rate_limit_key (client_ip req)) = Some w) \<and>
   snd (rate_limiter cfg req (Some c) s) =
     snd (execute [INCRBY (rate_limit_key (client_ip req)) 1,
                   EXPIRE (rate_limit_key (client_ip req)) (rate_limit_window_seconds cfg) True] s)"
proof -
  have "expiry (snd (rate_limiter cfg req (Some c) s)) (rate_limit_key (client_ip req)) =
        Some (clock s + 1000 * rate_limit_window_seconds cfg)"
    if "fault s = None" "lookupKey s (rate_limit_key (client_ip req)) = None"
      "0 < rate_limit_window_seconds cfg"
    using rate_limiter_fresh [OF that, of c] that(3)
    by (simp add: expiry_def lookupKey_def setKey_def expired_def)
  moreover have
    "expiry (snd (rate_limiter cfg req (Some c) s)) (rate_limit_key (client_ip req)) = Some w"
    if "expiry s (rate_limit_key (client_ip req)) = Some w" for w
    using execute_keeps_expiry [OF that] by (simp add: rate_limiter_store)
  ultimately show ?thesis using rate_limiter_store by blast
qed

text \<open>
  Limit 3, window 60 s: the first request at time 0 sets the expire time 60000 ms, and a
  second request 5 s later leaves it at 60000 ms.
\<close>

theorem rate_limiter_expiry_set_once_witness:
  "expiry (snd (rate_limiter cfg3 req0 (Some c0) s0)) (rate_limit_key (client_ip req0)) =
     Some 60000 \<and>
   expiry (snd (rate_limiter cfg3 req0 (Some c0)
                  (elapse 5000 (snd (rate_limiter cfg3 req0 (Some c0) s0)))))
     (rate_limit_key (client_ip req0)) = Some 60000"
proof -
  let ?k = "rate_limit_key (client_ip req0)"
  let ?s1 = "snd (rate_limiter cfg3 req0 (Some c0) s0)"
  have a: "fault s0 = None \<and> lookupKey s0 ?k = None \<and> 0 < rate_limit_window_seconds cfg3"
    by (simp add: s0_def lookupKey_def cfg3_def get_settings_def)
  have b: "expiry (elapse 5000 ?s1) ?k = Some 60000"
    by (simp add: rate_limiter_def execute_def lookupKey_def setKey_def expired_def elapse_def
        py_str_def str_nat.simps digit_char_def rate_limit_key_def client_ip_def s0_def
        req0_def c0_def get_settings_def cfg3_def expiry_def)
  from rate_limiter_expiry_set_once [of s0 req0 cfg3 c0] a
  have "expiry ?s1 ?k = Some (clock s0 + 1000 * rate_limit_window_seconds cfg3)" by blast
  then have "expiry ?s1 ?k = Some 60000" by (simp add: s0_def cfg3_def get_settings_def)
  moreover from rate_limiter_expiry_set_once [of "elapse 5000 ?s1" req0 cfg3 c0] b
  have "expiry (snd (rate_limiter cfg3 req0 (Some c0) (elapse 5000 ?s1))) ?k = Some 60000"
    by blast
  ultimately show ?thesis by blast
qed

subsection \<open>The store after a write\<close>

lemma expired_simps [simp]:
  "expired (setKey k e1 s) e = expired s e"
  "expired (delKey k s) e = expired s e"
  "expired s (e\<lparr>stored := v\<rparr>) = expired s e"
  "expired s (e\<lparr>expire_at := Some w\<rparr>) = (clock s > w)"
  "expired s \<lparr>stored = v, expire_at = x\<rparr> =
     (case x of None \<Rightarrow> False | Some w \<Rightarrow> clock s > w)"
  by (simp_all add: expired_def setKey_def delKey_def split: option.splits)

lemma lookupKey_setKey:
  "lookupKey (setKey k e s) k1 =
     (if k1 = k then (if expired s e then None else Some e) else lookupKey s k1)"
  by (auto simp: lookupKey_def setKey_def expired_def split: option.splits)

lemma lookupKey_delKey:
  "lookupKey (delKey k s) k1 = (if k1 = k then None else lookupKey s k1)"
  by (auto simp: lookupKey_def delKey_def expired_def split: option.splits)

lemma setKey_setKey [simp]: "setKey k e (setKey k e1 s) = setKey k e s"
  by (simp add: setKey_def)

lemma setKey_delKey [simp]: "setKey k e (delKey k s) = setKey k e s"
  by (simp add: setKey_def delKey_def)

lemma clock_setKey [simp]: "clock (setKey k e s) = clock s" "clock (delKey k s) = clock s"
  by (simp_all add: setKey_def delKey_def)

lemma fault_setKey [simp]: "fault (setKey k e s) = fault s" "fault (delKey k s) = fault s"
  by (simp_all add: setKey_def delKey_def)

lemma store_setKey [simp]: "store (setKey k e s) k = Some e"
  by (simp add: setKey_def)

subsection \<open>The recent list\<close>

lemma list_range_take: "1 \<le> n \<Longrightarrow> list_range xs 0 (n - 1) = take (nat n) xs"
proof -
  assume n: "1 \<le> n"
  then have s: "nat (n - 1 + 1) = nat n" "nat (int (length xs) - 1 + 1) = length xs" by auto
  show ?thesis
  proof (cases "xs = []")
    case True
    then show ?thesis by (simp add: list_range_def)
  next
    case False
    then have "0 < int (length xs)" by simp
    then show ?thesis using n s by (auto simp: list_range_def Let_def)
  qed
qed

text \<open>A push on a server that answers: onto no list, and onto a list.\<close>

lemma push_absent:
  assumes "fault s = None" and "lookupKey s (recent_key ip) = None"
    and "0 < rate_limit_window_seconds cfg" and "1 \<le> recent_notes_limit cfg"
  shows "push_recent_note cfg c ip x s =
           (Inr (), setKey (recent_key ip)
              \<lparr>stored = RList [py_str x],
               expire_at = Some (clock s + 1000 * rate_limit_window_seconds cfg)\<rparr> s)"
  using assms
  by (simp add: push_recent_note_def execute_def lookupKey_setKey putList_def list_range_take)

lemma push_live:
  assumes "fault s = None" and "lookupKey s (recent_key ip) = Some e" and "stored e = RList xs"
    and "0 < rate_limit_window_seconds cfg" and "1 \<le> recent_notes_limit cfg"
  shows "push_recent_note cfg c ip x s =
           (Inr (), setKey (recent_key ip)
              \<lparr>stored = RList (take (nat (recent_notes_limit cfg))
                                 (py_str x # removeAll (py_str x) xs)),
               expire_at = Some (clock s + 1000 * rate_limit_window_seconds cfg)\<rparr> s)"
proof -
  from assms(2) have st: "\<not> expired s e"
    by (auto simp: lookupKey_def split: option.splits if_splits)
  have ne: "take (nat (recent_notes_limit cfg)) (py_str x # ys) \<noteq> []" for ys
    using assms(5) by (cases "nat (recent_notes_limit cfg)") auto
  show ?thesis
  proof (cases "removeAll (py_str x) xs = []")
    case True
    then show ?thesis using assms st ne
      by (cases e)
        (simp add: push_recent_note_def execute_def lookupKey_setKey lookupKey_delKey
          putList_def list_range_take list_rem_def)
  next
    case False
    then show ?thesis using assms st ne
      by (cases e)
        (simp add: push_recent_note_def execute_def lookupKey_setKey lookupKey_delKey
          putList_def list_range_take list_rem_def)
  qed
qed

text \<open>Lists: the most recent push of each identifier, newest first.\<close>

lemma remdups_snoc: "remdups (xs @ [x]) = removeAll x (remdups xs) @ [x]"
  by (induction xs) auto

lemma removeAll_rev: "removeAll x (rev xs) = rev (removeAll x xs)"
  by (simp add: removeAll_filter_not_eq rev_filter)

lemma mru_snoc: "mru (ids @ [x]) = x # removeAll x (mru ids)"
  by (simp add: mru_def remdups_snoc removeAll_rev)

lemma distinct_mru: "distinct (mru ids)"
  by (simp add: mru_def)

lemma take_removeAll_take:
  "distinct D \<Longrightarrow> take m (removeAll x (take (Suc m) D)) = take m (removeAll x D)"
proof (induction D arbitrary: m)
  case Nil
  then show ?case by simp
next
  case (Cons y D)
  show ?case
  proof (cases "y = x")
    case True
    with Cons.prems have "x \<notin> set D" by simp
    moreover then have "x \<notin> set (take m D)" by (auto dest: in_set_takeD)
    ultimately show ?thesis using True by simp
  next
    case False
    then show ?thesis using Cons by (cases m) auto
  qed
qed

lemma take_push:
  assumes "distinct D" and "0 < n"
  shows "take n (x # removeAll x (take n D)) = take n (x # removeAll x D)"
proof -
  from assms(2) obtain m where n: "n = Suc m" by (cases n) auto
  show ?thesis using take_removeAll_take [OF assms(1), of m x] by (simp add: n)
qed

lemma removeAll_map_py_str: "removeAll (py_str x) (map py_str L) = map py_str (removeAll x L)"
  by (induction L) (auto dest: py_str_inj)

lemma ints_map_py_str: "ints (map py_str L) = Inr L"
  by (induction L) (simp_all add: py_int_py_str)

lemma holds_recent_elapse:
  assumes "holds_recent cfg k L s"
  shows "fault (elapse d s) = None"
    and "int d \<le> 1000 * rate_limit_window_seconds cfg \<Longrightarrow> L \<noteq> [] \<Longrightarrow>
           lookupKey (elapse d s) k =
             Some \<lparr>stored = RList (map py_str L),
                   expire_at = Some (clock s + 1000 * rate_limit_window_seconds cfg)\<rparr>"
    and "int d > 1000 * rate_limit_window_seconds cfg \<or> L = [] \<Longrightarrow>
           lookupKey (elapse d s) k = None"
proof -
  show "fault (elapse d s) = None" using assms by (simp add: holds_recent_def elapse_def)
  show "lookupKey (elapse d s) k =
      Some \<lparr>stored = RList (map py_str L),
            expire_at = Some (clock s + 1000 * rate_limit_window_seconds cfg)\<rparr>"
    if "int d \<le> 1000 * rate_limit_window_seconds cfg" "L \<noteq> []"
    using assms that by (simp add: holds_recent_def elapse_def lookupKey_def expired_def)
  show "lookupKey (elapse d s) k = None"
    if "int d > 1000 * rate_limit_window_seconds cfg \<or> L = []"
  proof (cases "L = []")
    case True
    then show ?thesis using assms by (simp add: holds_recent_def lookupKey_elapse_None)
  next
    case False
    then show ?thesis using assms that
      by (simp add: holds_recent_def elapse_def lookupKey_def expired_def)
  qed
qed

lemma push_holds:
  assumes h: "holds_recent cfg (recent_key ip) (take (nat (recent_notes_limit cfg)) (mru pre)) s"
    and w: "0 < rate_limit_window_seconds cfg" and n: "1 \<le> recent_notes_limit cfg"
  shows "holds_recent cfg (recent_key ip)
           (take (nat (recent_notes_limit cfg))
              (mru ((if int d \<le> 1000 * rate_limit_window_seconds cfg then pre else []) @ [x])))
           (snd (push_recent_note cfg c ip x (elapse d s)))"
proof -
  let ?n = "nat (recent_notes_limit cfg)"
  let ?L = "take ?n (mru pre)"
  let ?s = "elapse d s"
  have n0: "0 < ?n" using n by simp
  have up: "fault ?s = None" using holds_recent_elapse(1) [OF h] .
  show ?thesis
  proof (cases "int d \<le> 1000 * rate_limit_window_seconds cfg \<and> ?L \<noteq> []")
    case True
    then have pre: "pre \<noteq> []" by (auto simp: mru_def)
    from True holds_recent_elapse(2) [OF h, of d]
    have lk: "lookupKey ?s (recent_key ip) =
        Some \<lparr>stored = RList (map py_str ?L),
              expire_at = Some (clock s + 1000 * rate_limit_window_seconds cfg)\<rparr>" by simp
    have "py_str x # removeAll (py_str x) (map py_str ?L) = map py_str (x # removeAll x ?L)"
      by (simp add: removeAll_map_py_str)
    then have "take ?n (py_str x # removeAll (py_str x) (map py_str ?L)) =
          map py_str (take ?n (x # removeAll x ?L))"
      by (simp only: take_map)
    also have "take ?n (x # removeAll x ?L) = take ?n (mru (pre @ [x]))"
      by (simp only: mru_snoc take_push [OF distinct_mru n0])
    finally have eq: "take ?n (py_str x # removeAll (py_str x) (map py_str ?L)) =
          map py_str (take ?n (mru (pre @ [x])))" .
    have ne: "take ?n (mru (pre @ [x])) \<noteq> []" using n0 by (simp add: mru_snoc)
    show ?thesis
      using True ne push_live [OF up lk _ w n, of "map py_str ?L" c x] eq up
      by (simp add: holds_recent_def)
  next
    case False
    then have lk: "lookupKey ?s (recent_key ip) = None"
      using holds_recent_elapse(3) [OF h, of d] by auto
    have m: "take ?n (mru ((if int d \<le> 1000 * rate_limit_window_seconds cfg then pre else []) @ [x]))
        = [x]"
    proof (cases "int d \<le> 1000 * rate_limit_window_seconds cfg")
      case True
      with False have "take ?n (mru pre) = []" by simp
      with n0 have "mru pre = []" by (cases "mru pre") auto
      then show ?thesis using True n0 by (simp add: mru_snoc)
    next
      case False
      then show ?thesis using n0 by (simp add: mru_def)
    qed
    show ?thesis
      using push_absent [OF up lk w n, of c x] up by (simp add: m holds_recent_def)
  qed
qed

lemma pushes_holds:
  assumes "holds_recent cfg (recent_key ip) (take (nat (recent_notes_limit cfg)) (mru pre)) s"
    and "0 < rate_limit_window_seconds cfg" and "1 \<le> recent_notes_limit cfg"
  shows "holds_recent cfg (recent_key ip)
           (take (nat (recent_notes_limit cfg)) (mru (survivors cfg pre evs)))
           (pushes cfg c ip evs s)"
  using assms
proof (induction evs arbitrary: pre s)
  case Nil
  then show ?case by simp
next
  case (Cons ev evs)
  obtain d x where ev: "ev = (d, x)" by (cases ev)
  from Cons.IH [OF push_holds [OF Cons.prems, of d x c] Cons.prems(2,3)]
  show ?case by (simp add: ev)
qed

lemma get_recent_holds:
  assumes "holds_recent cfg (recent_key ip) L s" and "0 < rate_limit_window_seconds cfg"
    and "1 \<le> recent_notes_limit cfg" and "length L \<le> nat (recent_notes_limit cfg)"
  shows "get_recent_notes cfg c ip s = Inr L"
proof (cases "L = []")
  case True
  then show ?thesis using assms
    by (simp add: holds_recent_def get_recent_notes_def redis_lrange_def)
next
  case False
  then have "lookupKey s (recent_key ip) =
      Some \<lparr>stored = RList (map py_str L),
            expire_at = Some (clock s + 1000 * rate_limit_window_seconds cfg)\<rparr>"
    using holds_recent_elapse(2) [OF assms(1), of 0] assms(2) by (simp add: elapse_def)
  then show ?thesis using assms
    by (simp add: holds_recent_def get_recent_notes_def redis_lrange_def list_range_take
        ints_map_py_str)
qed

lemma survivors_append:
  "survivors cfg pre (evs @ [(d, x)]) =
     (if int d \<le> 1000 * rate_limit_window_seconds cfg then survivors cfg pre evs else []) @ [x]"
  by (induction evs arbitrary: pre) auto

lemma survivors_no_gap:
  "list_all (\<lambda>ev. int (fst ev) \<le> 1000 * rate_limit_window_seconds cfg) evs \<Longrightarrow>
     survivors cfg pre evs = pre @ map snd evs"
  by (induction evs arbitrary: pre) auto

lemma pushes_append:
  "pushes cfg c ip (evs @ [(d, x)]) s =
     snd (push_recent_note cfg c ip x (elapse d (pushes cfg c ip evs s)))"
  by (induction evs arbitrary: s) auto

lemma holds_recent_list:
  assumes "holds_recent cfg k L s" and "0 < rate_limit_window_seconds cfg"
  shows "recent_list s k = map py_str L"
proof (cases "L = []")
  case True
  then show ?thesis using assms by (simp add: holds_recent_def recent_list_def)
next
  case False
  then show ?thesis using assms
    by (simp add: holds_recent_def recent_list_def lookupKey_def expired_def)
qed

text \<open>
  A maximum of at least 1. The time to live of the list is positive, the server answers,
  and the client has no list when the pushes begin. After any sequence of pushes, each
  after some delay, the list that the server keeps is the most recent push of each
  identifier, newest first, cut to the maximum, over the pushes made since the list last
  expired, and the list read back is the same; it has no duplicates and at most the
  maximum length. When no delay exceeds the time to live these are all the pushes.
  Pushing an identifier that is in the list moves it to the front and leaves the length
  as it was.
\<close>

lemma recent_list_mru:
  assumes up: "fault s = None" and fresh: "lookupKey s (recent_key ip) = None"
    and w: "0 < rate_limit_window_seconds cfg" and n: "1 \<le> recent_notes_limit cfg"
  shows "recent_list (pushes cfg c ip evs s) (recent_key ip) =
           map py_str (take (nat (recent_notes_limit cfg)) (mru (survivors cfg [] evs))) \<and>
         get_recent_notes cfg c ip (pushes cfg c ip evs s) =
           Inr (take (nat (recent_notes_limit cfg)) (mru (survivors cfg [] evs))) \<and>
         distinct (recent_list (pushes cfg c ip evs s) (recent_key ip)) \<and>
         int (length (recent_list (pushes cfg c ip evs s) (recent_key ip)))
           \<le> recent_notes_limit cfg \<and>
         (list_all (\<lambda>ev. int (fst ev) \<le> 1000 * rate_limit_window_seconds cfg) evs \<longrightarrow>
            recent_list (pushes cfg c ip evs s) (recent_key ip) =
              map py_str (take (nat (recent_notes_limit cfg)) (mru (map snd evs)))) \<and>
         (\<forall>d x. py_str x \<in> set (recent_list (pushes cfg c ip evs s) (recent_key ip)) \<and>
              int d \<le> 1000 * rate_limit_window_seconds cfg \<longrightarrow>
            recent_list (pushes cfg c ip (evs @ [(d, x)]) s) (recent_key ip) =
              py_str x #
                removeAll (py_str x) (recent_list (pushes cfg c ip evs s) (recent_key ip)) \<and>
            length (recent_list (pushes cfg c ip (evs @ [(d, x)]) s) (recent_key ip)) =
              length (recent_list (pushes cfg c ip evs s) (recent_key ip)))"
proof -
  let ?n = "nat (recent_notes_limit cfg)"
  let ?k = "recent_key ip"
  let ?L = "take ?n (mru (survivors cfg [] evs))"
  have n0: "0 < ?n" using n by simp
  have h0: "holds_recent cfg ?k (take ?n (mru [])) s"
    using up fresh by (simp add: holds_recent_def mru_def)
  have h: "holds_recent cfg ?k (take ?n (mru (survivors cfg [] evs'))) (pushes cfg c ip evs' s)"
    for evs'
    using pushes_holds [OF h0 w n] .
  have st: "recent_list (pushes cfg c ip evs' s) ?k =
      map py_str (take ?n (mru (survivors cfg [] evs')))" for evs'
    using holds_recent_list [OF h w] .
  have get: "get_recent_notes cfg c ip (pushes cfg c ip evs' s) =
      Inr (take ?n (mru (survivors cfg [] evs')))" for evs'
    using get_recent_holds [OF h w n] by simp
  have dL: "distinct ?L" using distinct_mru by (rule distinct_take)
  have inj: "inj_on py_str A" for A by (rule inj_onI) (rule py_str_inj)
  have d: "distinct (recent_list (pushes cfg c ip evs s) ?k)"
    unfolding st using dL by (simp add: distinct_map inj)
  have l: "int (length (recent_list (pushes cfg c ip evs s) ?k)) \<le> recent_notes_limit cfg"
    unfolding st using n by simp
  have g: "recent_list (pushes cfg c ip evs s) ?k = map py_str (take ?n (mru (map snd evs)))"
    if "list_all (\<lambda>ev. int (fst ev) \<le> 1000 * rate_limit_window_seconds cfg) evs"
    using st [of evs] survivors_no_gap [OF that, of "[]"] by simp
  have p: "recent_list (pushes cfg c ip (evs @ [(d, x)]) s) ?k =
        py_str x # removeAll (py_str x) (recent_list (pushes cfg c ip evs s) ?k) \<and>
      length (recent_list (pushes cfg c ip (evs @ [(d, x)]) s) ?k) =
        length (recent_list (pushes cfg c ip evs s) ?k)"
    if "py_str x \<in> set (recent_list (pushes cfg c ip evs s) ?k)"
      "int d \<le> 1000 * rate_limit_window_seconds cfg" for d x
  proof -
    have xL: "x \<in> set ?L" using that(1) py_str_inj unfolding st by auto
    have len: "length (x # removeAll x ?L) = length ?L"
      using xL dL length_pos_if_in_set [OF xL]
      by (simp add: distinct_remove1_removeAll [symmetric] length_remove1)
    have "take ?n (mru (survivors cfg [] (evs @ [(d, x)]))) = take ?n (x # removeAll x ?L)"
      using that(2) by (simp only: survivors_append mru_snoc take_push [OF distinct_mru n0] if_True)
    also have "\<dots> = x # removeAll x ?L"
      using len by simp
    finally have e: "take ?n (mru (survivors cfg [] (evs @ [(d, x)]))) = x # removeAll x ?L" .
    have "recent_list (pushes cfg c ip (evs @ [(d, x)]) s) ?k = map py_str (x # removeAll x ?L)"
      unfolding st e ..
    also have "\<dots> = py_str x # removeAll (py_str x) (recent_list (pushes cfg c ip evs s) ?k)"
      unfolding st by (simp add: removeAll_map_py_str)
    finally have r: "recent_list (pushes cfg c ip (evs @ [(d, x)]) s) ?k =
        py_str x # removeAll (py_str x) (recent_list (pushes cfg c ip evs s) ?k)" .
    have "length (recent_list (pushes cfg c ip (evs @ [(d, x)]) s) ?k) =
        length (x # removeAll x ?L)"
      unfolding st e by simp
    also have "\<dots> = length (recent_list (pushes cfg c ip evs s) ?k)"
      unfolding st using len by simp
    finally show ?thesis using r by blast
  qed
  from st [of evs] get [of evs] d l g p show ?thesis by blast
qed

text \<open>
  The scenario of the specification, with the default settings (maximum 5): reading the
  notes 1 to 6 leaves [6, 5, 4, 3, 2], in the store and read back, and reading note 3
  again gives [3, 6, 5, 4, 2].
\<close>

lemma recent_list_mru_scenario:
  "recent_list
     (pushes get_settings c0 ''10.0.0.7'' [(0, 1), (0, 2), (0, 3), (0, 4), (0, 5), (0, 6)] s0)
     (recent_key ''10.0.0.7'') = [''6'', ''5'', ''4'', ''3'', ''2''] \<and>
   get_recent_notes get_settings c0 ''10.0.0.7''
     (pushes get_settings c0 ''10.0.0.7'' [(0, 1), (0, 2), (0, 3), (0, 4), (0, 5), (0, 6)] s0) =
     Inr [6, 5, 4, 3, 2] \<and>
   get_recent_notes get_settings c0 ''10.0.0.7''
     (pushes get_settings c0 ''10.0.0.7''
        [(0, 1), (0, 2), (0, 3), (0, 4), (0, 5), (0, 6), (0, 3)] s0) =
     Inr [3, 6, 5, 4, 2]"
proof -
  let ?evs = "[(0, 1), (0, 2), (0, 3), (0, 4), (0, 5), (0, 6)] :: (nat \<times> int) list"
  let ?evs3 = "[(0, 1), (0, 2), (0, 3), (0, 4), (0, 5), (0, 6), (0, 3)] :: (nat \<times> int) list"
  have a: "fault s0 = None" by (simp add: s0_def)
  have b: "lookupKey s0 (recent_key ''10.0.0.7'') = None" by (simp add: s0_def lookupKey_def)
  have c: "0 < rate_limit_window_seconds get_settings" by (simp add: get_settings_def)
  have d: "1 \<le> recent_notes_limit get_settings" by (simp add: get_settings_def)
  have m: "take (nat (recent_notes_limit get_settings)) (mru (survivors get_settings [] ?evs)) =
      [6, 5, 4, 3, 2]"
    by (simp add: get_settings_def mru_def)
  have m3: "take (nat (recent_notes_limit get_settings)) (mru (survivors get_settings [] ?evs3)) =
      [3, 6, 5, 4, 2]"
    by (simp add: get_settings_def mru_def)
  have t: "map py_str [6, 5, 4, 3, 2] = [''6'', ''5'', ''4'', ''3'', ''2'']"
    by (simp add: py_str_def str_nat.simps digit_char_def)
  from recent_list_mru [OF a b c d, of c0 ?evs] recent_list_mru [OF a b c d, of c0 ?evs3]
  show ?thesis by (simp only: m m3 t)
qed

text \<open>
  C2 (the code differs). The push cuts the list with \<^verbatim>\<open>LTRIM key 0 (limit - 1)\<close>, and the
  read asks for the same range. With a maximum of 0 the last index is \<open>-1\<close>, which is the
  last element of the list: the trim keeps the whole list and the read returns it. After
  three pushes the server keeps three elements, and three are read back, more than the
  maximum.
\<close>

theorem recent_list_zero_limit_keeps_all:
  "recent_notes_limit cfgz = 0 \<and>
   recent_list (pushes cfgz c0 ''10.0.0.7'' [(0, 1), (0, 2), (0, 3)] s0)
     (recent_key ''10.0.0.7'') = [''3'', ''2'', ''1''] \<and>
   get_recent_notes cfgz c0 ''10.0.0.7'' (pushes cfgz c0 ''10.0.0.7'' [(0, 1), (0, 2), (0, 3)] s0) =
     Inr [3, 2, 1]"
  by code_simp

subsection \<open>The JSON codec decodes what it encodes\<close>








lemma num_char_simps [simp]:
  "\<not> num_char CHR '',''" "\<not> num_char CHR ''}''" "\<not> num_char dq" "\<not> num_char CHR ''[''"
  "\<not> num_char CHR ''{''" "\<not> num_char CHR ''n''" "\<not> num_char CHR ''t''"
  "\<not> num_char CHR ''f''" "\<not> num_char CHR '' ''" "\<not> num_char CHR 0x0A" "\<not> num_char CHR 0x0D"
  "\<not> num_char CHR 0x09"
  by (simp_all add: num_char_def digit_val_def dq_def)

























subsection \<open>The cache\<close>






subsection \<open>Payloads that do not decode\<close>

text \<open>
  The fetch and its wrapper pass on every error of the two decoding calls: the wrapper
  catches \<^verbatim>\<open>RedisError\<close> only.
\<close>

lemma safe_get_cached_note_decode_error:
  assumes "redis_get (note_cache_key note_id) s = Inr (Some data)" and "data \<noteq> []"
    and "json_loads cdc data = Inl JSONDecodeError"
  shows "safe_get_cached_note cdc (Some c) note_id s = Inl JSONDecodeError"
  using assms by (simp add: safe_get_cached_note_def get_cached_note_def)

lemma read_note_cache_error:
  assumes "safe_get_cached_note cdc cl note_id s = Inl e"
  shows "read_note cdc cfg note_id req db cl True include_deleted s = (Inl e, s)"
  using assms by (simp add: read_note_def)

text \<open>
  C3 (the code differs). The cache entry of note 1 holds the bytes \<^verbatim>\<open>not json\<close>: the
  fetch through the wrapper raises \<^verbatim>\<open>JSONDecodeError\<close>, and so does the handler, though the
  table has the note. With the entry \<^verbatim>\<open>{}\<close>, which is JSON but not a note, it is
  \<^verbatim>\<open>ValidationError\<close>. A miss would have returned nothing and read the table.
\<close>

theorem malformed_payload_raises:
  "safe_get_cached_note json_codec (Some c0) 1 s_bad = Inl JSONDecodeError \<and>
   fst (read_note json_codec get_settings 1 req0 db1 (Some c0) True False s_bad) =
     Inl JSONDecodeError \<and>
   safe_get_cached_note json_codec (Some c0) 1 s_odd = Inl ValidationError \<and>
   safe_get_cached_note json_codec (Some c0) 1 s0 = Inr None \<and>
   fst (read_note json_codec get_settings 1 req0 db1 (Some c0) True False s0) = Inr note1"
proof -
  have a: "safe_get_cached_note json_codec (Some c0) 1 s_bad = Inl JSONDecodeError"
    by code_simp
  have b: "safe_get_cached_note json_codec (Some c0) 1 s_odd = Inl ValidationError"
    by code_simp
  have c: "safe_get_cached_note json_codec (Some c0) 1 s0 = Inr None"
    by code_simp
  have d: "fst (read_note json_codec get_settings 1 req0 db1 (Some c0) True False s0) = Inr note1"
    by code_simp
  from a b c d read_note_cache_error [OF a] show ?thesis by simp
qed

subsection \<open>A store that fails, and no client\<close>

text \<open>With a server that fails every command, each operation ends without an error.\<close>

lemma failing_store_degrades:
  assumes "fault s = Some e"
  shows "safe_get_cached_note cdc (Some c) note_id s = Inr None"
    and "safe_cache_note cdc cfg (Some c) n s = (Inr (), s)"
    and "safe_invalidate_cache (Some c) note_id s = (Inr (), s)"
    and "rate_limiter cfg req (Some c) s = (Inr (), s)"
    and "safe_push_recent cfg (Some c) req note_id s = (Inr (), s)"
    and "safe_get_recent cfg (Some c) req s = Inr []"
  using assms
  by (simp_all add: safe_get_cached_note_def get_cached_note_def redis_get_def
      safe_cache_note_def cache_note_def redis_set_def
      safe_invalidate_cache_def invalidate_note_cache_def redis_delete_def
      rate_limiter_def execute_def
      safe_push_recent_def push_recent_note_def
      safe_get_recent_def get_recent_notes_def redis_lrange_def
      split: option.splits)

text \<open>Without a client object the five wrappers do the same.\<close>

lemma absent_client_wrappers:
  "safe_get_cached_note cdc None note_id s = Inr None"
  "safe_cache_note cdc cfg None n s = (Inr (), s)"
  "safe_invalidate_cache None note_id s = (Inr (), s)"
  "safe_push_recent cfg None req note_id s = (Inr (), s)"
  "safe_get_recent cfg None req s = Inr []"
  by (simp_all add: safe_get_cached_note_def safe_cache_note_def safe_invalidate_cache_def
      safe_push_recent_def safe_get_recent_def)

text \<open>
  The rate limiter takes its client from \<^verbatim>\<open>Depends(redis_dependency)\<close>, which yields
  \<^verbatim>\<open>get_redis()\<close>: the object of the module, created on the first call. There is always
  one. The function itself has no test for a missing client and would fail on the
  attribute access, but no caller passes none.
\<close>

lemma get_redis_client: "\<exists>c. fst (get_redis cfg p) = Some c"
  by (cases "redis_instance p") (simp_all add: get_redis_def)

lemma rate_limiter_no_client: "rate_limiter cfg req None s = (Inl AttributeError, s)"
  by (simp add: rate_limiter_def)

text \<open>
  C4. With a server that fails every command, whatever the error, all six operations
  end without an error: the fetch finds nothing, the cache write and the invalidation
  do nothing, the rate limiter lets the request through (with any client, and so with
  the one that \<^verbatim>\<open>get_redis\<close> gives it), the push does nothing and the recent list is
  empty. In each case the store is left as it was. Without a client the five wrappers
  that can be called without one do the same, on any store.
\<close>

theorem store_failure_fails_open:
  "safe_get_cached_note cdc (Some c) note_id (s\<lparr>fault := Some e\<rparr>) = Inr None \<and>
   safe_cache_note cdc cfg (Some c) n (s\<lparr>fault := Some e\<rparr>) = (Inr (), s\<lparr>fault := Some e\<rparr>) \<and>
   safe_invalidate_cache (Some c) note_id (s\<lparr>fault := Some e\<rparr>) = (Inr (), s\<lparr>fault := Some e\<rparr>) \<and>
   rate_limiter cfg req (Some c) (s\<lparr>fault := Some e\<rparr>) = (Inr (), s\<lparr>fault := Some e\<rparr>) \<and>
   rate_limiter cfg req (fst (get_redis cfg p)) (s\<lparr>fault := Some e\<rparr>) =
     (Inr (), s\<lparr>fault := Some e\<rparr>) \<and>
   safe_push_recent cfg (Some c) req note_id (s\<lparr>fault := Some e\<rparr>) =
     (Inr (), s\<lparr>fault := Some e\<rparr>) \<and>
   safe_get_recent cfg (Some c) req (s\<lparr>fault := Some e\<rparr>) = Inr [] \<and>
   safe_get_cached_note cdc None note_id s = Inr None \<and>
   safe_cache_note cdc cfg None n s = (Inr (), s) \<and>
   safe_invalidate_cache None note_id s = (Inr (), s) \<and>
   safe_push_recent cfg None req note_id s = (Inr (), s) \<and>
   safe_get_recent cfg None req s = Inr []"
proof -
  have f: "fault (s\<lparr>fault := Some e\<rparr>) = Some e" by simp
  obtain c1 where c1: "fst (get_redis cfg p) = Some c1"
    using get_redis_client by blast
  have r: "rate_limiter cfg req (fst (get_redis cfg p)) (s\<lparr>fault := Some e\<rparr>) =
      (Inr (), s\<lparr>fault := Some e\<rparr>)"
    unfolding c1 by (rule failing_store_degrades(4) [OF f])
  show ?thesis
    by (intro conjI failing_store_degrades [OF f] absent_client_wrappers r)
qed

text \<open>
  A server that times out while it holds a counter, and the first call of \<^verbatim>\<open>get_redis\<close>
  in the process: the request passes and the counter is as it was.
\<close>

theorem store_failure_fails_open_witness:
  "rate_limiter cfg3 req0 (fst (get_redis cfg3 boot))
     (snd (rate_limiter cfg3 req0 (Some c0) s0)\<lparr>fault := Some TimeoutError\<rparr>) =
     (Inr (), snd (rate_limiter cfg3 req0 (Some c0) s0)\<lparr>fault := Some TimeoutError\<rparr>) \<and>
   safe_get_recent cfg3 (Some c0) req0
     (snd (rate_limiter cfg3 req0 (Some c0) s0)\<lparr>fault := Some TimeoutError\<rparr>) = Inr [] \<and>
   safe_get_recent cfg3 None req0 (snd (rate_limiter cfg3 req0 (Some c0) s0)) = Inr []"
  using store_failure_fails_open
    [where s = "snd (rate_limiter cfg3 req0 (Some c0) s0)" and e = TimeoutError and
      cfg = cfg3 and req = req0 and p = boot and c = c0 and cdc = json_codec and n = note1 and
      note_id = 1]
  by blast

subsection \<open>Reading a note\<close>









subsection \<open>Deleting a note\<close>

text \<open>
  C10. When the table has no note with the identifier, or has one that is already
  soft-deleted, the delete fails with the 404 outcome and leaves the table and the store
  as they were. The store changes only in a delete that found a note that was not deleted
  and wrote the soft delete to the table.
\<close>

theorem delete_note_not_found:
  "((db note_id = None \<or> (\<exists>n. db note_id = Some n \<and> is_deleted n)) \<longrightarrow>
      delete_note note_id db cl now s = (Inl not_found, db, s)) \<and>
   (snd (snd (delete_note note_id db cl now s)) \<noteq> s \<longrightarrow>
      (\<exists>n. db note_id = Some n \<and> \<not> is_deleted n \<and>
           fst (snd (delete_note note_id db cl now s)) = snd (soft_delete_note db n now) \<and>
           snd (snd (delete_note note_id db cl now s)) =
             snd (safe_invalidate_cache cl note_id s)))"
proof (cases "db note_id")
  case None
  then show ?thesis by (simp add: delete_note_def get_note_def)
next
  case (Some n)
  show ?thesis
  proof (cases "is_deleted n")
    case True
    then show ?thesis using Some by (simp add: delete_note_def get_note_def)
  next
    case False
    then show ?thesis using Some
      by (auto simp: delete_note_def get_note_def split: prod.splits sum.splits)
  qed
qed

text \<open>
  Note 3 is not in the table and note 2 is soft-deleted: both deletes fail with 404 and
  change nothing, also on a server that holds a cache entry.
\<close>

theorem delete_note_not_found_witness:
  "delete_note 3 db1 (Some c0) 2000 s_bad = (Inl not_found, db1, s_bad) \<and>
   delete_note 2 db1 (Some c0) 2000 s_bad = (Inl not_found, db1, s_bad)"
proof -
  have a: "db1 3 = None" by (simp add: db1_def)
  have b: "db1 2 = Some note2 \<and> is_deleted note2" by (simp add: db1_def note2_def)
  from delete_note_not_found [of db1 3 "Some c0" 2000 s_bad] a
  have "delete_note 3 db1 (Some c0) 2000 s_bad = (Inl not_found, db1, s_bad)" by blast
  moreover from delete_note_not_found [of db1 2 "Some c0" 2000 s_bad] b
  have "delete_note 2 db1 (Some c0) 2000 s_bad = (Inl not_found, db1, s_bad)" by blast
  ultimately show ?thesis by blast
qed

subsection \<open>The shared client\<close>

lemma goto_simps [simp]:
  "pcs (goto t l p) u = (if u = t then l else pcs p u)"
  "redis_instance (goto t l p) = redis_instance p"
  "locked (goto t l p) = locked p"
  "created (goto t l p) = created p"
  "returned (goto t l p) = returned p"
  by (simp_all add: goto_def)

lemma pc_simps [simp]:
  "in_lock AtRecheck" "in_lock AtCreate" "in_lock AtRelease"
  "\<not> in_lock AtCheck" "\<not> in_lock AtAcquire" "\<not> in_lock AtReturn" "\<not> in_lock Returned"
  "has_client AtRelease" "has_client AtReturn" "has_client Returned"
  "\<not> has_client AtCheck" "\<not> has_client AtAcquire" "\<not> has_client AtRecheck"
  "\<not> has_client AtCreate"
  by (simp_all add: in_lock_def has_client_def)

lemma boot_inv: "process_inv boot"
  by (auto simp: process_inv_def holder_inv_def boot_def intro: exI [of _ None])

lemma step_holder:
  assumes inv: "holder_inv h p"
  shows "holder_inv
           (case pcs p t of
              AtAcquire \<Rightarrow> if locked p then h else Some t
            | AtRelease \<Rightarrow> None
            | _ \<Rightarrow> h)
           (step cfg t p)"
proof -
  have k: "in_lock (pcs p t) = (h = Some t)"
    "has_client (pcs p t) \<longrightarrow> redis_instance p \<noteq> None"
    "pcs p t = AtCreate \<longrightarrow> redis_instance p = None"
    using inv by (auto simp: holder_inv_def)
  show ?thesis
  proof (cases "pcs p t")
  case AtCheck
  then show ?thesis using inv k
    by (cases "redis_instance p = None") (auto simp: holder_inv_def step_def)
next
  case AtAcquire
  then show ?thesis using inv k
    by (cases "locked p") (auto simp: holder_inv_def step_def)
next
  case AtRecheck
  then show ?thesis using inv k
    by (cases "redis_instance p = None") (auto simp: holder_inv_def step_def)
next
  case AtCreate
  have r: "pcs p u \<noteq> Returned" if "redis_instance p = None" for u
    using inv that by (auto simp: holder_inv_def dest: spec [of _ u])
  from AtCreate show ?thesis using inv k
    by (auto simp: holder_inv_def step_def dest: r)
next
  case AtRelease
  then show ?thesis using inv k
    by (auto simp: holder_inv_def step_def)
next
  case AtReturn
  then show ?thesis using inv k
    by (auto simp: holder_inv_def step_def)
next
  case Returned
  then show ?thesis using inv by (simp add: step_def)
  qed
qed

lemma step_inv: "process_inv p \<Longrightarrow> process_inv (step cfg t p)"
  unfolding process_inv_def using step_holder by blast

lemma run_inv: "process_inv p \<Longrightarrow> process_inv (run cfg sched p)"
  by (induction sched arbitrary: p) (simp_all add: step_inv)

lemma run_append: "run cfg (xs @ ys) p = run cfg ys (run cfg xs p)"
  by (induction xs arbitrary: p) simp_all

lemma step_simps:
  "pcs p t = AtCheck \<Longrightarrow> redis_instance p = None \<Longrightarrow> step cfg t p = goto t AtAcquire p"
  "pcs p t = AtCheck \<Longrightarrow> redis_instance p \<noteq> None \<Longrightarrow> step cfg t p = goto t AtReturn p"
  "pcs p t = AtAcquire \<Longrightarrow> \<not> locked p \<Longrightarrow>
     step cfg t p = goto t AtRecheck (p\<lparr>locked := True\<rparr>)"
  "pcs p t = AtAcquire \<Longrightarrow> locked p \<Longrightarrow> step cfg t p = p"
  "pcs p t = AtRecheck \<Longrightarrow> redis_instance p = None \<Longrightarrow> step cfg t p = goto t AtCreate p"
  "pcs p t = AtRecheck \<Longrightarrow> redis_instance p \<noteq> None \<Longrightarrow> step cfg t p = goto t AtRelease p"
  "pcs p t = AtCreate \<Longrightarrow>
     step cfg t p =
       goto t AtRelease
         (p\<lparr>redis_instance := Some (from_url (redis_url cfg) (created p)),
            created := created p + 1\<rparr>)"
  "pcs p t = AtRelease \<Longrightarrow> step cfg t p = goto t AtReturn (p\<lparr>locked := False\<rparr>)"
  "pcs p t = AtReturn \<Longrightarrow>
     step cfg t p = goto t Returned (p\<lparr>returned := (returned p)(t := redis_instance p)\<rparr>)"
  "pcs p t = Returned \<Longrightarrow> step cfg t p = p"
  by (auto simp: step_def)

text \<open>A caller that runs on its own while nobody holds the lock returns.\<close>

lemma returned_stays: "pcs p t = Returned \<Longrightarrow> pcs (run cfg (replicate n t) p) t = Returned"
  by (induction n arbitrary: p) (simp_all add: step_simps)

lemma from_return:
  "pcs p t = AtReturn \<Longrightarrow> pcs (run cfg (t # replicate n t) p) t = Returned"
  by (simp add: step_simps returned_stays)

lemma alone_returns:
  assumes inv: "holder_inv None p"
  shows "pcs (run cfg [t, t, t, t, t, t] p) t = Returned"
proof -
  have k: "\<not> locked p" "\<not> in_lock (pcs p t)"
    "has_client (pcs p t) \<longrightarrow> redis_instance p \<noteq> None"
    using inv by (auto simp: holder_inv_def)
  have acq: "pcs (run cfg [t, t, t, t, t] q) t = Returned"
    if "pcs q t = AtAcquire" "\<not> locked q" for q
  proof (cases "redis_instance q = None")
    case True
    let ?q1 = "goto t AtRecheck (q\<lparr>locked := True\<rparr>)"
    have 1: "step cfg t q = ?q1" using that by (simp add: step_simps)
    let ?q2 = "goto t AtCreate ?q1"
    have 2: "step cfg t ?q1 = ?q2" using True by (simp add: step_simps)
    let ?q3 = "step cfg t ?q2"
    have 3: "pcs ?q3 t = AtRelease" by (simp add: step_simps)
    let ?q4 = "step cfg t ?q3"
    have 4: "pcs ?q4 t = AtReturn" using 3 by (simp add: step_simps)
    have "pcs (run cfg [t] ?q4) t = Returned" using from_return [OF 4, of cfg 0] by simp
    then show ?thesis by (simp add: 1 2)
  next
    case False
    let ?q1 = "goto t AtRecheck (q\<lparr>locked := True\<rparr>)"
    have 1: "step cfg t q = ?q1" using that by (simp add: step_simps)
    let ?q2 = "goto t AtRelease ?q1"
    have 2: "step cfg t ?q1 = ?q2" using False by (simp add: step_simps)
    let ?q3 = "step cfg t ?q2"
    have 3: "pcs ?q3 t = AtReturn" by (simp add: step_simps)
    have "pcs (run cfg [t, t] ?q3) t = Returned"
      using from_return [OF 3, of cfg "Suc 0"] by simp
    then show ?thesis by (simp add: 1 2)
  qed
  show ?thesis
  proof (cases "pcs p t")
    case AtCheck
    show ?thesis
    proof (cases "redis_instance p = None")
      case True
      then have 1: "step cfg t p = goto t AtAcquire p" using AtCheck by (simp add: step_simps)
      have "pcs (run cfg [t, t, t, t, t] (goto t AtAcquire p)) t = Returned"
        using k by (intro acq) simp_all
      then show ?thesis by (simp add: 1)
    next
      case False
      then have 1: "step cfg t p = goto t AtReturn p" using AtCheck by (simp add: step_simps)
      have "pcs (goto t AtReturn p) t = AtReturn" by simp
      from from_return [OF this, of cfg "Suc (Suc (Suc (Suc 0)))"]
      have "pcs (run cfg [t, t, t, t, t] (goto t AtReturn p)) t = Returned" by simp
      then show ?thesis by (simp add: 1)
    qed
  next
    case AtAcquire
    have "pcs (run cfg [t, t, t, t, t] p) t = Returned" using AtAcquire k by (intro acq)
    then have "pcs (run cfg [t] (run cfg [t, t, t, t, t] p)) t = Returned"
      using returned_stays [of _ t cfg "Suc 0"] by simp
    then show ?thesis by (simp only: run_append [symmetric] append_Cons append_Nil)
  next
    case AtReturn
    from from_return [OF this, of cfg "Suc (Suc (Suc (Suc (Suc 0))))"]
    show ?thesis by simp
  next
    case Returned
    from returned_stays [OF this, of cfg "Suc (Suc (Suc (Suc (Suc (Suc 0)))))"]
    show ?thesis by simp
  qed (use k in simp_all)
qed

text \<open>The caller that holds the lock lets go of it in three steps at most.\<close>

lemma holder_releases:
  assumes inv: "holder_inv (Some u) p"
  shows "holder_inv None (run cfg [u, u, u] p)"
proof -
  have k: "in_lock (pcs p u)" using inv by (simp add: holder_inv_def)
  have s1: "holder_inv (case pcs p u of AtAcquire \<Rightarrow> if locked p then Some u else Some u
       | AtRelease \<Rightarrow> None | _ \<Rightarrow> Some u) (step cfg u p)"
    using step_holder [OF inv, of u cfg] by (cases "pcs p u") simp_all
  show ?thesis
  proof (cases "pcs p u")
    case AtRecheck
    show ?thesis
    proof (cases "redis_instance p = None")
      case True
      let ?p1 = "step cfg u p"
      have p1: "pcs ?p1 u = AtCreate" using AtRecheck True by (simp add: step_def)
      have h1: "holder_inv (Some u) ?p1" using s1 AtRecheck by simp
      let ?p2 = "step cfg u ?p1"
      have p2: "pcs ?p2 u = AtRelease" using p1 by (simp add: step_def)
      have h2: "holder_inv (Some u) ?p2" using step_holder [OF h1, of u cfg] p1 by simp
      have "holder_inv None (step cfg u ?p2)" using step_holder [OF h2, of u cfg] p2 by simp
      then show ?thesis by simp
    next
      case False
      let ?p1 = "step cfg u p"
      have p1: "pcs ?p1 u = AtRelease" using AtRecheck False by (simp add: step_def)
      have h1: "holder_inv (Some u) ?p1" using s1 AtRecheck by simp
      let ?p2 = "step cfg u ?p1"
      have p2: "pcs ?p2 u = AtReturn" using p1 by (simp add: step_def)
      have h2: "holder_inv None ?p2" using step_holder [OF h1, of u cfg] p1 by simp
      have "holder_inv None (step cfg u ?p2)" using step_holder [OF h2, of u cfg] p2 by simp
      then show ?thesis by simp
    qed
  next
    case AtCreate
    let ?p1 = "step cfg u p"
    have p1: "pcs ?p1 u = AtRelease" using AtCreate by (simp add: step_def)
    have h1: "holder_inv (Some u) ?p1" using s1 AtCreate by simp
    let ?p2 = "step cfg u ?p1"
    have p2: "pcs ?p2 u = AtReturn" using p1 by (simp add: step_def)
    have h2: "holder_inv None ?p2" using step_holder [OF h1, of u cfg] p1 by simp
    have "holder_inv None (step cfg u ?p2)" using step_holder [OF h2, of u cfg] p2 by simp
    then show ?thesis by simp
  next
    case AtRelease
    let ?p1 = "step cfg u p"
    have p1: "pcs ?p1 u = AtReturn" using AtRelease by (simp add: step_def)
    have h1: "holder_inv None ?p1" using s1 AtRelease by simp
    let ?p2 = "step cfg u ?p1"
    have p2: "pcs ?p2 u = Returned" using p1 by (simp add: step_def)
    have h2: "holder_inv None ?p2" using step_holder [OF h1, of u cfg] p1 by simp
    have "holder_inv None (step cfg u ?p2)" using step_holder [OF h2, of u cfg] p2 by simp
    then show ?thesis by simp
  qed (use k in simp_all)
qed

lemma can_return:
  assumes "process_inv p"
  shows "\<exists>ext. pcs (run cfg ext p) t = Returned"
proof -
  from assms obtain h where h: "holder_inv h p" by (auto simp: process_inv_def)
  show ?thesis
  proof (cases h)
    case None
    with h alone_returns [of p cfg t] show ?thesis by blast
  next
    case (Some u)
    with h have "holder_inv (Some u) p" by simp
    then have "holder_inv None (run cfg [u, u, u] p)" by (rule holder_releases)
    from alone_returns [OF this, of cfg t]
    have "pcs (run cfg ([u, u, u] @ [t, t, t, t, t, t]) p) t = Returned"
      by (simp only: run_append)
    then show ?thesis by blast
  qed
qed

lemma inv_facts:
  assumes "process_inv p"
  shows "created p \<le> 1"
    and "returned p t = Some c \<Longrightarrow> redis_instance p = Some c"
    and "pcs p t = Returned \<Longrightarrow> returned p t = redis_instance p \<and> redis_instance p \<noteq> None"
    and "\<not> locked p \<Longrightarrow> holder_inv None p"
proof -
  from assms obtain h where h: "holder_inv h p" by (auto simp: process_inv_def)
  show "created p \<le> 1" using h by (simp add: holder_inv_def)
  have r: "returned p t = (if pcs p t = Returned then redis_instance p else None)"
    using h by (simp add: holder_inv_def)
  show "redis_instance p = Some c" if "returned p t = Some c"
    using r that by (simp split: if_splits)
  have c: "has_client (pcs p t) \<longrightarrow> redis_instance p \<noteq> None"
    using h by (auto simp: holder_inv_def)
  show "returned p t = redis_instance p \<and> redis_instance p \<noteq> None" if "pcs p t = Returned"
    using c r that by simp
  show "holder_inv None p" if "\<not> locked p"
    using h that by (cases h) (auto simp: holder_inv_def)
qed

lemma get_redis_alone: "returned (run cfg [t, t, t, t, t, t] boot) t = fst (get_redis cfg boot)"
  by (simp add: step_def boot_def get_redis_def goto_def)

text \<open>
  C9. Whatever the order in which the steps of any number of concurrent callers run,
  \<^verbatim>\<open>from_url\<close> is called at most once, every caller that has returned has the client
  that the global holds, so any two callers have the same one, and a caller always can
  return: on its own when the lock is free, and after the holder of the lock has let go
  otherwise. A single call is the function \<open>get_redis\<close>: it returns a client, and a
  call after it returns the same client and changes nothing. No step reads the server,
  so whether the store can be reached plays no part.
\<close>

theorem get_redis_created_once:
  "created (run cfg sched boot) \<le> 1 \<and>
   (\<forall>t u c d. returned (run cfg sched boot) t = Some c \<and>
        returned (run cfg sched boot) u = Some d \<longrightarrow> c = d) \<and>
   (\<forall>t. pcs (run cfg sched boot) t = Returned \<longrightarrow>
        returned (run cfg sched boot) t = redis_instance (run cfg sched boot) \<and>
        redis_instance (run cfg sched boot) \<noteq> None) \<and>
   (\<forall>t. \<not> locked (run cfg sched boot) \<longrightarrow>
        pcs (run cfg (sched @ [t, t, t, t, t, t]) boot) t = Returned) \<and>
   (\<forall>t. \<exists>ext. pcs (run cfg (sched @ ext) boot) t = Returned) \<and>
   returned (run cfg [t0, t0, t0, t0, t0, t0] boot) t0 = fst (get_redis cfg boot) \<and>
   fst (get_redis cfg p) \<noteq> None \<and>
   get_redis cfg (snd (get_redis cfg p)) = get_redis cfg p"
proof -
  let ?q = "run cfg sched boot"
  have inv: "process_inv ?q" using boot_inv by (rule run_inv)
  have a: "created ?q \<le> 1" using inv_facts(1) [OF inv] .
  have b: "c = d" if "returned ?q t = Some c" "returned ?q u = Some d" for t u c d
    using inv_facts(2) [OF inv that(1)] inv_facts(2) [OF inv that(2)] by simp
  have c: "returned ?q t = redis_instance ?q \<and> redis_instance ?q \<noteq> None"
    if "pcs ?q t = Returned" for t
    using inv_facts(3) [OF inv that] .
  have d: "pcs (run cfg (sched @ [t, t, t, t, t, t]) boot) t = Returned" if "\<not> locked ?q" for t
    using alone_returns [OF inv_facts(4) [OF inv that], of cfg t] by (simp only: run_append)
  have e: "\<exists>ext. pcs (run cfg (sched @ ext) boot) t = Returned" for t
    using can_return [OF inv, of cfg t] by (simp only: run_append)
  have f: "fst (get_redis cfg p) \<noteq> None" by (simp add: get_redis_def Let_def)
  have g: "get_redis cfg (snd (get_redis cfg p)) = get_redis cfg p"
    by (simp add: get_redis_def Let_def)
  from a b c d e f g get_redis_alone [of cfg t0] show ?thesis by blast
qed

text \<open>
  Two callers race: both find no client, caller 0 takes the lock while caller 1 waits,
  caller 0 creates the client and returns, then caller 1 takes the lock, finds the
  client and returns. Both return the one client that was created.
\<close>

theorem get_redis_created_once_witness:
  "returned (run get_settings race boot) 0 = Some c0 \<and>
   returned (run get_settings race boot) 1 = Some c0 \<and>
   created (run get_settings race boot) = 1"
proof -
  let ?q = "run get_settings race boot"
  have a: "returned ?q 0 = Some c0" by code_simp
  have b: "pcs ?q 1 = Returned" by code_simp
  have c: "created ?q = 1" by code_simp
  note t = get_redis_created_once [of get_settings race 0 boot]
  from t b have "returned ?q 1 = redis_instance ?q \<and> redis_instance ?q \<noteq> None" by blast
  then obtain d where d: "returned ?q 1 = Some d" by auto
  from t a d have "c0 = d" by blast
  with a c d show ?thesis by simp
qed

end
